theory Spec2Isabelle
  imports Complex_Main "HOL-Library.AList" "HOL-Library.Sublist"
begin

section \<open>Python values, slices and strings\<close>

text \<open>
  Payloads and metadata are \<^verbatim>\<open>dict[str, Any]\<close>. A dictionary is an association list in
  insertion order with distinct keys (\<open>map_of\<close> reads it, \<open>AList.update\<close> writes it the way
  a Python dict does: an existing key keeps its place, a new key goes last).
\<close>

datatype pyval =
    PyNone
  | PyStr string
  | PyInt int
  | PyFloat real
  | PyList "pyval list"
  | PyDict "(string \<times> pyval) list"

text \<open>
  \<^verbatim>\<open>xs[lo:hi]\<close> with step 1: a negative bound counts from the end, every bound is
  clamped to \<open>0 .. len(xs)\<close>, an omitted bound is \<open>None\<close>. So \<^verbatim>\<open>xs[-k:]\<close> is
  \<open>py_slice (Some (- k)) None xs\<close>, and for \<open>k = 0\<close> that is the whole list.
\<close>

definition py_index :: "nat \<Rightarrow> int \<Rightarrow> nat" where
  "py_index n i = (if i < 0 then nat (max 0 (int n + i)) else min (nat i) n)"

definition py_slice :: "int option \<Rightarrow> int option \<Rightarrow> 'a list \<Rightarrow> 'a list" where
  "py_slice lo hi xs =
     (let n = length xs;
          a = (case lo of None \<Rightarrow> 0 | Some i \<Rightarrow> py_index n i);
          b = (case hi of None \<Rightarrow> n | Some j \<Rightarrow> py_index n j)
      in take (b - a) (drop a xs))"

text \<open>\<^verbatim>\<open>s.split(c)\<close> for a one-character separator: never empty, \<^verbatim>\<open>"".split(".") == [""]\<close>.\<close>

fun split_on :: "char \<Rightarrow> string \<Rightarrow> string list" where
  "split_on c [] = [[]]"
| "split_on c (x # xs) =
     (if x = c then [] # split_on c xs
      else (let r = split_on c xs in (x # hd r) # tl r))"

text \<open>\<^verbatim>\<open>sep.join(parts)\<close>.\<close>

fun join :: "string \<Rightarrow> string list \<Rightarrow> string" where
  "join sep [] = []"
| "join sep [p] = p"
| "join sep (p # q # ps) = p @ sep @ join sep (q # ps)"

definition startswith :: "'a list \<Rightarrow> 'a list \<Rightarrow> bool" where
  "startswith s p = prefix p s"

definition endswith :: "'a list \<Rightarrow> 'a list \<Rightarrow> bool" where
  "endswith s p = suffix p s"

section \<open>Events and the event bus (swarmx/core/event\_bus.py)\<close>

datatype event_priority = LOW | NORMAL | HIGH | CRITICAL

fun priority_value :: "event_priority \<Rightarrow> int" where
  "priority_value LOW = 0"
| "priority_value NORMAL = 1"
| "priority_value HIGH = 2"
| "priority_value CRITICAL = 3"

text \<open>
  The dataclass \<^verbatim>\<open>Event\<close>. \<open>event_id\<close> and \<open>timestamp\<close> default to a fresh uuid prefix and
  \<^verbatim>\<open>time.time()\<close>; whoever constructs an event in the model passes both.
\<close>

record event =
  topic :: string
  payload :: "(string \<times> pyval) list"
  source :: string
  event_id :: string
  timestamp :: real
  priority :: event_priority
  metadata :: "(string \<times> pyval) list"

text \<open>
  An \<^verbatim>\<open>EventHandler\<close> is a coroutine function closed over the rest of the program. Its
  body is one atomic step here: from the event and the program state \<open>'w\<close> it reads, it
  gives the state it leaves, the events it published on the bus while it ran (in order,
  each by the blocking \<^verbatim>\<open>publish\<close>), and whether it returned (\<open>fault = None\<close>) or raised.
  What it raised is an instance of \<^verbatim>\<open>Exception\<close> (\<open>Exc\<close>, with its message), or
  \<^verbatim>\<open>asyncio.CancelledError\<close>, or another exception outside \<^verbatim>\<open>Exception\<close> (\<open>BaseExc\<close>).
  \<^verbatim>\<open>KeyboardInterrupt\<close> and \<^verbatim>\<open>SystemExit\<close>, which asyncio raises out of the event loop
  itself, are not among them. A handler that raises has still done what it did before
  the raise. \<open>is_exception\<close> is \<^verbatim>\<open>isinstance(x, Exception)\<close>.
\<close>

datatype exn = Exc string | CancelledError | BaseExc string

fun is_exception :: "exn \<Rightarrow> bool" where
  "is_exception (Exc msg) = True"
| "is_exception CancelledError = False"
| "is_exception (BaseExc msg) = False"

record 'w reaction =
  fault :: "exn option"
  emitted :: "event list"
  world :: 'w

type_synonym 'w event_handler = "event \<Rightarrow> 'w \<Rightarrow> 'w reaction"

text \<open>The dataclass \<^verbatim>\<open>_Subscription\<close> (its \<^verbatim>\<open>priority\<close> is \<open>sub_priority\<close>).\<close>

record 'w subscription =
  handler :: "'w event_handler"
  subscriber_id :: string
  topic_pattern :: string
  sub_priority :: event_priority

text \<open>
  The attributes of \<^verbatim>\<open>EventBus\<close>. \<open>event_queue\<close> is the \<^verbatim>\<open>asyncio.Queue\<close>, oldest first,
  with its \<^verbatim>\<open>maxsize\<close> in \<open>max_queue_size\<close>; \<open>dispatch_task\<close> says whether
  \<^verbatim>\<open>_dispatch_task\<close> holds a task; the three counters are the entries of \<^verbatim>\<open>_stats\<close>.
  \<^verbatim>\<open>_max_history\<close> is set to 1000 by the constructor and never assigned again.
\<close>

record 'w bus =
  subscriptions :: "(string \<times> 'w subscription list) list"
  global_subscriptions :: "'w subscription list"
  event_queue :: "event list"
  max_queue_size :: int
  running :: bool
  dispatch_task :: bool
  event_history :: "event list"
  published :: int
  dispatched :: int
  errors :: int

definition bus_max_history :: int where
  "bus_max_history = 1000"

definition new_bus :: "int \<Rightarrow> 'w bus" where
  "new_bus max_size =
     \<lparr>subscriptions = [], global_subscriptions = [], event_queue = [],
      max_queue_size = max_size, running = False, dispatch_task = False,
      event_history = [], published = 0, dispatched = 0, errors = 0\<rparr>"

subsection \<open>Subscription management\<close>

text \<open>\<^verbatim>\<open>self._subscriptions.get(k, [])\<close>.\<close>

definition subs_at :: "'w bus \<Rightarrow> string \<Rightarrow> 'w subscription list" where
  "subs_at b k = (case map_of (subscriptions b) k of None \<Rightarrow> [] | Some ss \<Rightarrow> ss)"

text \<open>
  \<^verbatim>\<open>subscribe\<close>. \<open>new_sub\<close> is the \<^verbatim>\<open>_Subscription\<close> it builds; \<open>fresh\<close> is what
  \<^verbatim>\<open>uuid.uuid4().hex[:8]\<close> gives, used when no subscriber id was passed.
\<close>

definition new_sub ::
  "string \<Rightarrow> 'w event_handler \<Rightarrow> string \<Rightarrow> event_priority \<Rightarrow> string \<Rightarrow> 'w subscription" where
  "new_sub tp h sid pr fresh =
     \<lparr>handler = h, subscriber_id = (if sid = [] then fresh else sid), topic_pattern = tp,
      sub_priority = pr\<rparr>"

definition subscribe ::
  "string \<Rightarrow> 'w event_handler \<Rightarrow> string \<Rightarrow> event_priority \<Rightarrow> string \<Rightarrow> 'w bus
     \<Rightarrow> string \<times> 'w bus" where
  "subscribe tp h sid pr fresh b =
     (let sub = new_sub tp h sid pr fresh
      in (subscriber_id sub,
          if tp = ''*'' then b\<lparr>global_subscriptions := global_subscriptions b @ [sub]\<rparr>
          else b\<lparr>subscriptions := AList.update tp (subs_at b tp @ [sub]) (subscriptions b)\<rparr>))"

text \<open>
  \<^verbatim>\<open>unsubscribe\<close>: every topic's list loses the subscriber's entries, a list left empty
  is deleted with its key, then the global list is filtered; the count removed is returned.
\<close>

definition unsubscribe :: "string \<Rightarrow> 'w bus \<Rightarrow> int \<times> 'w bus" where
  "unsubscribe sid b =
     (let keep = filter (\<lambda>s. subscriber_id s \<noteq> sid);
          kept = map (\<lambda>(k, ss). (k, keep ss)) (subscriptions b);
          removed_topics =
            (\<Sum>(k, ss) \<leftarrow> subscriptions b. int (length ss) - int (length (keep ss)));
          globals = keep (global_subscriptions b);
          removed = removed_topics
                    + (int (length (global_subscriptions b)) - int (length globals))
      in (removed,
          b\<lparr>subscriptions := filter (\<lambda>(k, ss). ss \<noteq> []) kept,
            global_subscriptions := globals\<rparr>))"

subsection \<open>Publishing\<close>

text \<open>
  \<^verbatim>\<open>asyncio.Queue.full()\<close>: a queue whose \<^verbatim>\<open>maxsize\<close> is zero or negative is never full.
\<close>

definition queue_full :: "'w bus \<Rightarrow> bool" where
  "queue_full b = (0 < max_queue_size b \<and> max_queue_size b \<le> int (length (event_queue b)))"

definition enqueue :: "event \<Rightarrow> 'w bus \<Rightarrow> 'w bus" where
  "enqueue e b = b\<lparr>event_queue := event_queue b @ [e], published := published b + 1\<rparr>"

text \<open>
  \<^verbatim>\<open>publish\<close> waits in \<^verbatim>\<open>Queue.put\<close> while the queue is full. Nothing else runs in this
  sequential model, so a publisher that has to wait never comes back: \<open>None\<close>.
\<close>

definition publish :: "event \<Rightarrow> 'w bus \<Rightarrow> 'w bus option" where
  "publish e b = (if queue_full b then None else Some (enqueue e b))"

text \<open>
  \<^verbatim>\<open>publish_nowait\<close>: \<^verbatim>\<open>put_nowait\<close> raises \<^verbatim>\<open>QueueFull\<close> on a full queue, before the
  counter is touched. The result pairs what the call did with the bus it leaves.
\<close>

datatype bus_error = QueueFull

definition publish_nowait :: "event \<Rightarrow> 'w bus \<Rightarrow> (bus_error + unit) \<times> 'w bus" where
  "publish_nowait e b = (if queue_full b then (Inl QueueFull, b) else (Inr (), enqueue e b))"

subsection \<open>Dispatch of one event\<close>

text \<open>
  \<^verbatim>\<open>_dispatch_event\<close>, first lines: the event is appended to the history, and a history
  longer than \<^verbatim>\<open>_max_history\<close> is cut to its last \<^verbatim>\<open>_max_history\<close> entries.
\<close>

definition record_history :: "event \<Rightarrow> 'w bus \<Rightarrow> 'w bus" where
  "record_history e b =
     (let h = event_history b @ [e]
      in b\<lparr>event_history :=
             (if bus_max_history < int (length h)
              then py_slice (Some (- bus_max_history)) None h else h)\<rparr>)"

text \<open>
  The candidate of the first wildcard loop at index \<open>i\<close>:
  \<^verbatim>\<open>".".join(topic_parts[:i+1]) + ".*" if i < len(topic_parts) - 1 else ""\<close>.
\<close>

definition wildcard_at :: "string list \<Rightarrow> nat \<Rightarrow> string" where
  "wildcard_at parts i =
     (if i < length parts - 1 then join ''.'' (take (i + 1) parts) @ ''.*'' else [])"

text \<open>The subscriptions under the event's own topic.\<close>

definition exact_matches :: "'w bus \<Rightarrow> string \<Rightarrow> 'w subscription list" where
  "exact_matches b t = (if map_of (subscriptions b) t \<noteq> None then subs_at b t else [])"

text \<open>
  The first wildcard loop: for every index of the topic's segments, the subscriptions
  stored under the candidate pattern, when the candidate is not empty and is a key.
\<close>

definition wildcard_matches :: "'w bus \<Rightarrow> string list \<Rightarrow> 'w subscription list" where
  "wildcard_matches b parts =
     concat (map (\<lambda>i. let wildcard = wildcard_at parts i
                      in if wildcard \<noteq> [] \<and> map_of (subscriptions b) wildcard \<noteq> None
                         then subs_at b wildcard else [])
               [0..<length parts])"

text \<open>
  The second wildcard loop, over the items of \<^verbatim>\<open>_subscriptions\<close> in insertion order: a
  pattern ending in \<^verbatim>\<open>".*"\<close> whose prefix \<^verbatim>\<open>pattern[:-2]\<close> followed by a dot starts the
  topic, and that is not among the patterns built from the topic's segments.
\<close>

definition parent_wildcard_matches ::
  "'w bus \<Rightarrow> string \<Rightarrow> string list \<Rightarrow> 'w subscription list" where
  "parent_wildcard_matches b t parts =
     concat (map (\<lambda>(pattern, subs).
                    if endswith pattern ''.*''
                       \<and> startswith t (py_slice None (Some (- 2)) pattern @ ''.'')
                       \<and> pattern \<notin> set (map (\<lambda>i. join ''.'' (take (i + 1) parts) @ ''.*'')
                                              [0..<length parts])
                    then subs else [])
               (subscriptions b))"

text \<open>
  The list \<^verbatim>\<open>handlers\<close> after \<^verbatim>\<open>handlers.sort(key=priority.value, reverse=True)\<close>: exact
  matches, both wildcard loops, the global listeners, sorted by priority, highest first.
  Python's sort is stable also when reversed, as \<open>sort_key\<close> on the negated value is.
\<close>

definition matching_handlers :: "'w bus \<Rightarrow> string \<Rightarrow> 'w subscription list" where
  "matching_handlers b t =
     (let parts = split_on CHR ''.'' t
      in sort_key (\<lambda>s. - priority_value (sub_priority s))
           (exact_matches b t @ wildcard_matches b parts
            @ parent_wildcard_matches b t parts @ global_subscriptions b))"

text \<open>The events a handler published while it ran, each through \<open>publish\<close>.\<close>

fun publish_all :: "event list \<Rightarrow> 'w bus \<Rightarrow> 'w bus option" where
  "publish_all [] b = Some b"
| "publish_all (e # es) b = (case publish e b of None \<Rightarrow> None | Some b' \<Rightarrow> publish_all es b')"

text \<open>
  \<^verbatim>\<open>_safe_call\<close>: the handler runs inside \<^verbatim>\<open>try\<close>. An \<^verbatim>\<open>Exception\<close> is logged and counted
  in \<^verbatim>\<open>_stats["errors"]\<close> and the call returns normally; an exception outside \<^verbatim>\<open>Exception\<close>
  is not caught by \<^verbatim>\<open>except Exception\<close> and leaves the call, uncounted. The result is
  \<open>None\<close> when the handler waits for room in the queue and never comes back; otherwise
  the exception that left the call, if any, with the bus and the program state.
\<close>

definition safe_call ::
  "'w event_handler \<Rightarrow> event \<Rightarrow> string \<Rightarrow> 'w bus \<times> 'w
     \<Rightarrow> (exn option \<times> 'w bus \<times> 'w) option" where
  "safe_call h e sid bw =
     (let r = h e (snd bw)
      in case publish_all (emitted r) (fst bw) of
           None \<Rightarrow> None
         | Some b' \<Rightarrow>
             Some (case fault r of
                     None \<Rightarrow> (None, b', world r)
                   | Some x \<Rightarrow>
                       if is_exception x then (None, b'\<lparr>errors := errors b' + 1\<rparr>, world r)
                       else (Some x, b', world r)))"

text \<open>
  \<^verbatim>\<open>await asyncio.gather(*tasks)\<close> over the safe calls, with nothing else running in
  between: the calls run one after the other in the order of the sorted list. Every call
  runs, whatever the others did; the first exception that left a call is raised to the
  awaiter. \<open>None\<close> when a call never comes back.
\<close>

fun gather_safe_calls ::
  "'w subscription list \<Rightarrow> event \<Rightarrow> 'w bus \<times> 'w \<Rightarrow> (exn option \<times> 'w bus \<times> 'w) option" where
  "gather_safe_calls [] e bw = Some (None, bw)"
| "gather_safe_calls (s # ss) e bw =
     (case safe_call (handler s) e (subscriber_id s) bw of
        None \<Rightarrow> None
      | Some (p, bw1) \<Rightarrow>
          (case gather_safe_calls ss e bw1 of
             None \<Rightarrow> None
           | Some (q, bw2) \<Rightarrow> Some (case p of None \<Rightarrow> q | Some x \<Rightarrow> Some x, bw2)))"

text \<open>
  \<^verbatim>\<open>_dispatch_event\<close> in three parts. Up to the sort: the history is recorded and the
  list \<^verbatim>\<open>handlers\<close> is built. Then the handler calls are gathered. Then
  \<^verbatim>\<open>_stats["dispatched"]\<close> is incremented.
\<close>

definition begin_dispatch :: "event \<Rightarrow> 'w bus \<Rightarrow> 'w bus \<times> 'w subscription list" where
  "begin_dispatch e b =
     (let b1 = record_history e b
      in (b1, matching_handlers b1 (topic e)))"

definition count_dispatched :: "'w bus \<Rightarrow> 'w bus" where
  "count_dispatched b = b\<lparr>dispatched := dispatched b + 1\<rparr>"

text \<open>
  \<^verbatim>\<open>_dispatch_event\<close>, awaited with nothing else running. An exception raised by the
  gathering leaves the coroutine before the counter is incremented.
\<close>

definition dispatch_event ::
  "event \<Rightarrow> 'w bus \<times> 'w \<Rightarrow> (exn option \<times> 'w bus \<times> 'w) option" where
  "dispatch_event e bw =
     (let (b1, handlers) = begin_dispatch e (fst bw)
      in case gather_safe_calls handlers e (b1, snd bw) of
           None \<Rightarrow> None
         | Some (None, b2, w2) \<Rightarrow> Some (None, count_dispatched b2, w2)
         | Some (Some x, b2, w2) \<Rightarrow> Some (Some x, b2, w2))"

subsection \<open>Start, stop and the dispatch task\<close>

text \<open>
  \<^verbatim>\<open>start\<close> creates the task that runs \<^verbatim>\<open>_dispatch_loop\<close>, and \<^verbatim>\<open>stop\<close> drains the queue
  itself while that task is still alive, then cancels it. Both take events from the same
  queue, so what \<^verbatim>\<open>stop\<close> does depends on how the two interleave. The coroutines are
  therefore cut at their suspension points, and the event loop is a schedule: the order
  in which it resumes them.

  The state: the bus and the program state; where the \<^verbatim>\<open>stop\<close> coroutine stands, the
  handler calls its \<^verbatim>\<open>gather\<close> has not run yet, and the exception that left one of them;
  the same for the dispatch task.
\<close>

datatype stop_state =
    SCalled           \<comment> \<open>\<^verbatim>\<open>stop()\<close> has been called and has not run yet\<close>
  | SAwait            \<comment> \<open>at \<^verbatim>\<open>await asyncio.gather\<close> inside \<^verbatim>\<open>_dispatch_event\<close>\<close>
  | SDone             \<comment> \<open>\<^verbatim>\<open>stop()\<close> has returned\<close>
  | SRaised exn       \<comment> \<open>\<^verbatim>\<open>stop()\<close> has raised\<close>

datatype loop_state =
    LNone             \<comment> \<open>no dispatch task\<close>
  | LCreated          \<comment> \<open>created by \<^verbatim>\<open>start\<close>, has not run yet\<close>
  | LWaiting          \<comment> \<open>at \<^verbatim>\<open>await asyncio.wait_for(self._event_queue.get(), 0.1)\<close>\<close>
  | LAwait            \<comment> \<open>at \<^verbatim>\<open>await asyncio.gather\<close> inside \<^verbatim>\<open>_dispatch_event\<close>\<close>
  | LDone             \<comment> \<open>the task has returned\<close>
  | LFailed exn       \<comment> \<open>the task has ended with an exception\<close>

record 'w runtime =
  rt_bus :: "'w bus"
  rt_world :: 'w
  stop_task :: stop_state
  stop_calls :: "('w subscription \<times> event) list"
  stop_exc :: "exn option"
  loop_task :: loop_state
  loop_calls :: "('w subscription \<times> event) list"
  loop_exc :: "exn option"

definition new_runtime :: "'w bus \<Rightarrow> 'w \<Rightarrow> 'w runtime" where
  "new_runtime b w =
     \<lparr>rt_bus = b, rt_world = w, stop_task = SDone, stop_calls = [], stop_exc = None,
      loop_task = LNone, loop_calls = [], loop_exc = None\<rparr>"

text \<open>\<^verbatim>\<open>start\<close>: on a bus that is not running, the flag is set and the task is created.\<close>

definition start :: "'w runtime \<Rightarrow> 'w runtime" where
  "start rt =
     (if running (rt_bus rt) then rt
      else rt\<lparr>rt_bus := (rt_bus rt)\<lparr>running := True, dispatch_task := True\<rparr>,
              loop_task := LCreated, loop_calls := [], loop_exc := None\<rparr>)"

text \<open>\<^verbatim>\<open>await bus.publish(e)\<close> by the caller, and the call of \<^verbatim>\<open>stop()\<close>.\<close>

definition rt_publish :: "event \<Rightarrow> 'w runtime \<Rightarrow> 'w runtime option" where
  "rt_publish e rt = map_option (\<lambda>b. rt\<lparr>rt_bus := b\<rparr>) (publish e (rt_bus rt))"

definition call_stop :: "'w runtime \<Rightarrow> 'w runtime" where
  "call_stop rt = rt\<lparr>stop_task := SCalled, stop_calls := [], stop_exc := None\<rparr>"

text \<open>
  A cancelled dispatch task ends (\<^verbatim>\<open>except asyncio.CancelledError: break\<close>) without
  incrementing the counter. When it was waiting for a \<^verbatim>\<open>gather\<close> that has not finished,
  the handler calls of that \<^verbatim>\<open>gather\<close> that have not run are cancelled with it.
\<close>

definition cancel_dispatch_task :: "'w runtime \<Rightarrow> 'w runtime" where
  "cancel_dispatch_task rt =
     (case loop_task rt of
        LAwait \<Rightarrow> rt\<lparr>loop_task := LDone,
                     loop_calls := (if loop_exc rt = None then [] else loop_calls rt)\<rparr>
      | LWaiting \<Rightarrow> rt\<lparr>loop_task := LDone\<rparr>
      | LCreated \<Rightarrow> rt\<lparr>loop_task := LDone\<rparr>
      | _ \<Rightarrow> rt)"

text \<open>
  The end of \<^verbatim>\<open>stop\<close>, after the drain loop: the dispatch task, if there is one, is
  cancelled and awaited, and \<^verbatim>\<open>_dispatch_task\<close> becomes \<^verbatim>\<open>None\<close>. Awaiting a task that
  has ended with an exception raises that exception.
\<close>

definition finish_stop :: "'w runtime \<Rightarrow> 'w runtime" where
  "finish_stop rt =
     (if dispatch_task (rt_bus rt)
      then (case loop_task rt of
              LFailed x \<Rightarrow> rt\<lparr>stop_task := SRaised x\<rparr>
            | _ \<Rightarrow> (cancel_dispatch_task rt)
                     \<lparr>rt_bus := (rt_bus rt)\<lparr>dispatch_task := False\<rparr>, stop_task := SDone\<rparr>)
      else rt\<lparr>stop_task := SDone\<rparr>)"

text \<open>
  The drain loop of \<^verbatim>\<open>stop\<close> from its test \<^verbatim>\<open>while not self._event_queue.empty()\<close>, run up
  to the next suspension; \<open>q\<close> is the queue. An event without matching handlers is
  dispatched without a suspension (\<^verbatim>\<open>if handlers:\<close>), and the loop goes on; with
  handlers, \<^verbatim>\<open>stop\<close> suspends in \<^verbatim>\<open>gather\<close>. On an empty queue \<^verbatim>\<open>stop\<close> finishes.
\<close>

fun drain_from :: "event list \<Rightarrow> 'w runtime \<Rightarrow> 'w runtime" where
  "drain_from [] rt = finish_stop rt"
| "drain_from (e # q) rt =
     (let (b1, handlers) = begin_dispatch e ((rt_bus rt)\<lparr>event_queue := q\<rparr>)
      in if handlers = [] then drain_from q (rt\<lparr>rt_bus := count_dispatched b1\<rparr>)
         else rt\<lparr>rt_bus := b1, stop_task := SAwait,
                 stop_calls := map (\<lambda>s. (s, e)) handlers\<rparr>)"

text \<open>
  One step of the \<^verbatim>\<open>stop\<close> coroutine, from where it stands to its next suspension. At its
  call: return at once when the bus is not running, else clear the flag and drain. Resumed
  from \<^verbatim>\<open>gather\<close> (all its calls have run, or an exception left one of them): raise that
  exception, or count the dispatch and go on draining. \<open>None\<close> when it cannot run.
\<close>

definition stop_step :: "'w runtime \<Rightarrow> 'w runtime option" where
  "stop_step rt =
     (case stop_task rt of
        SCalled \<Rightarrow>
          if \<not> running (rt_bus rt) then Some (rt\<lparr>stop_task := SDone\<rparr>)
          else Some (drain_from (event_queue (rt_bus rt))
                       (rt\<lparr>rt_bus := (rt_bus rt)\<lparr>running := False\<rparr>\<rparr>))
      | SAwait \<Rightarrow>
          (case stop_exc rt of
             Some x \<Rightarrow> Some (rt\<lparr>stop_task := SRaised x\<rparr>)
           | None \<Rightarrow>
               if stop_calls rt = []
               then Some (drain_from (event_queue (rt_bus rt))
                            (rt\<lparr>rt_bus := count_dispatched (rt_bus rt)\<rparr>))
               else None)
      | _ \<Rightarrow> None)"

text \<open>The test \<^verbatim>\<open>while self._running\<close> of the dispatch task.\<close>

definition loop_again :: "'w bus \<Rightarrow> loop_state" where
  "loop_again b = (if running b then LWaiting else LDone)"

text \<open>
  One step of the dispatch task. Its first step is the loop test. Waiting for the queue:
  with an event there, it takes the oldest and starts its dispatch (whatever
  \<^verbatim>\<open>_running\<close> is by then); with none, the wait times out and the loop test decides.
  Resumed from \<^verbatim>\<open>gather\<close>: an exception that left a call ends the task
  (\<^verbatim>\<open>except asyncio.CancelledError: break\<close>; any other is outside \<^verbatim>\<open>Exception\<close> and not
  caught); otherwise the dispatch is counted and the loop test decides.
\<close>

definition loop_step :: "'w runtime \<Rightarrow> 'w runtime option" where
  "loop_step rt =
     (case loop_task rt of
        LCreated \<Rightarrow> Some (rt\<lparr>loop_task := loop_again (rt_bus rt)\<rparr>)
      | LWaiting \<Rightarrow>
          (case event_queue (rt_bus rt) of
             [] \<Rightarrow> Some (rt\<lparr>loop_task := loop_again (rt_bus rt)\<rparr>)
           | e # q \<Rightarrow>
               Some (let (b1, handlers) = begin_dispatch e ((rt_bus rt)\<lparr>event_queue := q\<rparr>)
                     in if handlers = []
                        then rt\<lparr>rt_bus := count_dispatched b1, loop_task := loop_again b1\<rparr>
                        else rt\<lparr>rt_bus := b1, loop_task := LAwait,
                                loop_calls := map (\<lambda>s. (s, e)) handlers\<rparr>))
      | LAwait \<Rightarrow>
          (case loop_exc rt of
             Some x \<Rightarrow>
               Some (rt\<lparr>loop_task := (if x = CancelledError then LDone else LFailed x)\<rparr>)
           | None \<Rightarrow>
               if loop_calls rt = []
               then Some (rt\<lparr>rt_bus := count_dispatched (rt_bus rt),
                             loop_task := loop_again (rt_bus rt)\<rparr>)
               else None)
      | _ \<Rightarrow> None)"

text \<open>
  One handler call of a \<^verbatim>\<open>gather\<close> runs: the oldest call that has not run, of \<^verbatim>\<open>stop\<close>'s
  \<^verbatim>\<open>gather\<close> or of the dispatch task's. \<open>None\<close> when there is none, or when the handler
  waits for room in the queue.
\<close>

definition stop_call_step :: "'w runtime \<Rightarrow> 'w runtime option" where
  "stop_call_step rt =
     (case stop_calls rt of
        [] \<Rightarrow> None
      | (s, e) # cs \<Rightarrow>
          (case safe_call (handler s) e (subscriber_id s) (rt_bus rt, rt_world rt) of
             None \<Rightarrow> None
           | Some (p, b, w) \<Rightarrow>
               Some (rt\<lparr>rt_bus := b, rt_world := w, stop_calls := cs,
                        stop_exc := (case stop_exc rt of None \<Rightarrow> p | Some x \<Rightarrow> Some x)\<rparr>)))"

definition loop_call_step :: "'w runtime \<Rightarrow> 'w runtime option" where
  "loop_call_step rt =
     (case loop_calls rt of
        [] \<Rightarrow> None
      | (s, e) # cs \<Rightarrow>
          (case safe_call (handler s) e (subscriber_id s) (rt_bus rt, rt_world rt) of
             None \<Rightarrow> None
           | Some (p, b, w) \<Rightarrow>
               Some (rt\<lparr>rt_bus := b, rt_world := w, loop_calls := cs,
                        loop_exc := (case loop_exc rt of None \<Rightarrow> p | Some x \<Rightarrow> Some x)\<rparr>)))"

text \<open>
  A schedule names, step by step, what the event loop resumes: the \<^verbatim>\<open>stop\<close> coroutine,
  the dispatch task, or a handler call of one of the two. \<open>run\<close> follows a schedule, and
  is \<open>None\<close> when the schedule resumes something that cannot run.
\<close>

datatype actor = Stop | Loop | StopCall | LoopCall

fun step :: "actor \<Rightarrow> 'w runtime \<Rightarrow> 'w runtime option" where
  "step Stop rt = stop_step rt"
| "step Loop rt = loop_step rt"
| "step StopCall rt = stop_call_step rt"
| "step LoopCall rt = loop_call_step rt"

fun run :: "actor list \<Rightarrow> 'w runtime \<Rightarrow> 'w runtime option" where
  "run [] rt = Some rt"
| "run (a # as) rt = (case step a rt of None \<Rightarrow> None | Some rt1 \<Rightarrow> run as rt1)"

subsection \<open>Well-formed subscription tables\<close>

text \<open>
  What \<^verbatim>\<open>subscribe\<close> and \<^verbatim>\<open>unsubscribe\<close> maintain from the empty bus on: the keys of
  \<^verbatim>\<open>_subscriptions\<close> are distinct and never \<^verbatim>\<open>"*"\<close>, every subscription is stored under
  its own pattern, and the global list holds the \<^verbatim>\<open>"*"\<close> subscriptions.
\<close>

definition bus_ok :: "'w bus \<Rightarrow> bool" where
  "bus_ok b =
     (distinct (map fst (subscriptions b))
      \<and> list_all (\<lambda>(k, ss). k \<noteq> ''*'' \<and> list_all (\<lambda>s. topic_pattern s = k) ss) (subscriptions b)
      \<and> list_all (\<lambda>s. topic_pattern s = ''*'') (global_subscriptions b))"

subsection \<open>Introspection\<close>

text \<open>\<^verbatim>\<open>recent_events\<close>: \<^verbatim>\<open>self._event_history[-limit:]\<close>.\<close>

definition recent_events :: "int \<Rightarrow> 'w bus \<Rightarrow> event list" where
  "recent_events limit b = py_slice (Some (- limit)) None (event_history b)"

subsection \<open>What a dispatch does, handler by handler\<close>

text \<open>
  Readings of one run of the handlers \<open>hs\<close> on the event \<open>e\<close>, started in the program
  state \<open>w\<close>, each handler seeing the state the one before it left: the state after all of
  them, how many of them raised an \<^verbatim>\<open>Exception\<close>, the first exception outside
  \<^verbatim>\<open>Exception\<close> that one of them raised (if any), and what they published.
\<close>

fun run_world :: "'w subscription list \<Rightarrow> event \<Rightarrow> 'w \<Rightarrow> 'w" where
  "run_world [] e w = w"
| "run_world (s # ss) e w = run_world ss e (world (handler s e w))"

fun count_caught :: "'w subscription list \<Rightarrow> event \<Rightarrow> 'w \<Rightarrow> int" where
  "count_caught [] e w = 0"
| "count_caught (s # ss) e w =
     (let r = handler s e w
      in (case fault r of None \<Rightarrow> 0 | Some x \<Rightarrow> if is_exception x then 1 else 0)
         + count_caught ss e (world r))"

fun first_escaped :: "'w subscription list \<Rightarrow> event \<Rightarrow> 'w \<Rightarrow> exn option" where
  "first_escaped [] e w = None"
| "first_escaped (s # ss) e w =
     (let r = handler s e w
      in case fault r of
           None \<Rightarrow> first_escaped ss e (world r)
         | Some x \<Rightarrow> if is_exception x then first_escaped ss e (world r) else Some x)"

fun emissions :: "'w subscription list \<Rightarrow> event \<Rightarrow> 'w \<Rightarrow> event list" where
  "emissions [] e w = []"
| "emissions (s # ss) e w = (let r = handler s e w in emitted r @ emissions ss e (world r))"

text \<open>
  Whether \<open>n\<close> more events can be put on the queue without a publisher having to wait:
  there are none, or the queue is unbounded, or they all find room.
\<close>

definition fits :: "'w bus \<Rightarrow> nat \<Rightarrow> bool" where
  "fits b n = (n = 0 \<or> max_queue_size b \<le> 0
               \<or> int (length (event_queue b)) + int n \<le> max_queue_size b)"

text \<open>Every subscription of the bus, as \<^verbatim>\<open>subscription_count\<close> counts them.\<close>

definition all_subscriptions :: "'w bus \<Rightarrow> 'w subscription list" where
  "all_subscriptions b = concat (map snd (subscriptions b)) @ global_subscriptions b"

section \<open>The agent runtime (swarmx/core/agent.py, swarmx/core/provider.py)\<close>

text \<open>
  Python's truth test, as \<^verbatim>\<open>if not content\<close> applies it to a payload entry.
\<close>

fun truthy :: "pyval \<Rightarrow> bool" where
  "truthy PyNone = False"
| "truthy (PyStr s) = (s \<noteq> [])"
| "truthy (PyInt i) = (i \<noteq> 0)"
| "truthy (PyFloat r) = (r \<noteq> 0)"
| "truthy (PyList xs) = (xs \<noteq> [])"
| "truthy (PyDict kvs) = (kvs \<noteq> [])"

text \<open>\<^verbatim>\<open>d.get(k, default)\<close>.\<close>

definition dict_get :: "('k \<times> 'v) list \<Rightarrow> 'k \<Rightarrow> 'v \<Rightarrow> 'v" where
  "dict_get d k dflt = (case map_of d k of None \<Rightarrow> dflt | Some v \<Rightarrow> v)"

datatype role = SYSTEM | USER | ASSISTANT | TOOL

text \<open>
  \<^verbatim>\<open>Message\<close>: the role and the content. The content is annotated \<^verbatim>\<open>str\<close>, but the agent
  stores whatever the payload held, so it is a Python value. The optional fields
  (\<^verbatim>\<open>name\<close>, \<^verbatim>\<open>tool_calls\<close>, \<^verbatim>\<open>tool_call_id\<close>, \<^verbatim>\<open>metadata\<close>) are never read or written by
  the agent and are left out.
\<close>

record message =
  role :: role
  content :: pyval

record completion_response =
  resp_message :: message
  finish_reason :: string
  usage :: "(string \<times> int) list"
  raw_response :: pyval
  resp_model :: string

text \<open>
  A provider is an object with a \<^verbatim>\<open>complete\<close> coroutine and state of its own: from its
  state, the messages, the tools and the keyword overrides, it returns a response or
  raises (\<open>Inl\<close>), and leaves a new state.
\<close>

record 'p provider =
  complete :: "'p \<Rightarrow> message list \<Rightarrow> pyval list option \<Rightarrow> (string \<times> pyval) list
                 \<Rightarrow> (string + completion_response) \<times> 'p"
  pstate :: 'p

text \<open>\<^verbatim>\<open>AgentConfig\<close> (\<^verbatim>\<open>name\<close>, \<^verbatim>\<open>provider\<close>, \<^verbatim>\<open>model\<close>, \<^verbatim>\<open>subscriptions\<close>, \<^verbatim>\<open>metadata\<close> carry the prefix \<open>cfg\<close>).\<close>

record agent_config =
  cfg_name :: string
  cfg_provider :: string
  cfg_model :: string
  system_prompt :: string
  cfg_subscriptions :: "string list"
  tools :: "pyval list"
  max_history :: int
  temperature :: "real option"
  cfg_metadata :: "(string \<times> pyval) list"

datatype agent_state = CREATED | INITIALIZING | IDLE | PROCESSING | ERROR | SHUTDOWN

text \<open>
  The attributes of \<^verbatim>\<open>Agent\<close>. The bus and the registry are passed to the operations; the
  lock is always free when a handler starts, since handlers run one after the other.
\<close>

record 'p agent =
  config :: agent_config
  agent_id :: string
  state :: agent_state
  message_history :: "message list"
  bound_provider :: "'p provider option"

text \<open>The constructor; \<open>uid\<close> is \<^verbatim>\<open>uuid.uuid4().hex[:6]\<close>.\<close>

definition new_agent :: "agent_config \<Rightarrow> string \<Rightarrow> 'p agent" where
  "new_agent cfg uid =
     \<lparr>config = cfg, agent_id = cfg_name cfg @ ''-'' @ uid, state = CREATED,
      message_history = [], bound_provider = None\<rparr>"

text \<open>
  \<^verbatim>\<open>initialize\<close>: the registry lookup raises \<^verbatim>\<open>KeyError\<close> for an unknown name (the agent is
  then left in \<open>INITIALIZING\<close>); otherwise the system prompt, when not empty, seeds the
  history, every configured pattern is subscribed with the agent's id, and the state
  becomes \<open>IDLE\<close>. \<open>h\<close> is the bound method \<^verbatim>\<open>self._handle_event\<close> as a bus handler.
\<close>

definition initialize ::
  "(string \<times> 'p provider) list \<Rightarrow> 'w event_handler \<Rightarrow> 'p agent \<times> 'w bus
     \<Rightarrow> string option \<times> 'p agent \<times> 'w bus" where
  "initialize registry h ab =
     (let a1 = (fst ab)\<lparr>state := INITIALIZING\<rparr>
      in case map_of registry (cfg_provider (config a1)) of
           None \<Rightarrow> (Some ''KeyError'', a1, snd ab)
         | Some p \<Rightarrow>
             (let a2 = a1\<lparr>bound_provider := Some p\<rparr>;
                  a3 = (if system_prompt (config a2) \<noteq> []
                        then a2\<lparr>message_history :=
                                  message_history a2
                                  @ [\<lparr>role = SYSTEM, content = PyStr (system_prompt (config a2))\<rparr>]\<rparr>
                        else a2);
                  b' = foldl (\<lambda>b tp. snd (subscribe tp h (agent_id a3) NORMAL [] b))
                         (snd ab) (cfg_subscriptions (config a3))
              in (None, a3\<lparr>state := IDLE\<rparr>, b')))"

text \<open>
  The trimming step of \<^verbatim>\<open>think\<close>: when the history is longer than \<^verbatim>\<open>max_history\<close>, it
  becomes the system messages followed by the slice
  \<^verbatim>\<open>history[-(max_history - len(system_msgs)):]\<close>.
\<close>

definition trim_history :: "int \<Rightarrow> message list \<Rightarrow> message list" where
  "trim_history max_h h =
     (if max_h < int (length h)
      then (let system_msgs = filter (\<lambda>m. role m = SYSTEM) h;
                recent = py_slice (Some (- (max_h - int (length system_msgs)))) None h
            in system_msgs @ recent)
      else h)"

text \<open>The keyword overrides and the tools argument (\<^verbatim>\<open>self.config.tools or None\<close>).\<close>

definition think_kwargs :: "agent_config \<Rightarrow> (string \<times> pyval) list" where
  "think_kwargs cfg =
     (if cfg_model cfg \<noteq> [] then [(''model'', PyStr (cfg_model cfg))] else [])
     @ (case temperature cfg of None \<Rightarrow> [] | Some t \<Rightarrow> [(''temperature'', PyFloat t)])"

definition think_tools :: "agent_config \<Rightarrow> pyval list option" where
  "think_tools cfg = (if tools cfg = [] then None else Some (tools cfg))"

text \<open>
  \<^verbatim>\<open>think\<close>. Without a provider it returns \<^verbatim>\<open>None\<close> and leaves the history alone. Otherwise
  the input is appended as a user message, the history is trimmed, the provider is called
  with it, and the response's message is appended. A provider that raises leaves the
  history as it was at the call; the exception goes to the caller (\<open>Inl\<close>).
\<close>

definition think ::
  "pyval \<Rightarrow> 'p agent \<Rightarrow> (string + completion_response option) \<times> 'p agent" where
  "think user_input a =
     (case bound_provider a of
        None \<Rightarrow> (Inr None, a)
      | Some p \<Rightarrow>
          (let h1 = message_history a @ [\<lparr>role = USER, content = user_input\<rparr>];
               h2 = trim_history (max_history (config a)) h1;
               (res, ps) = complete p (pstate p) h2 (think_tools (config a))
                             (think_kwargs (config a));
               a2 = a\<lparr>message_history := h2, bound_provider := Some (p\<lparr>pstate := ps\<rparr>)\<rparr>
           in case res of
                Inl err \<Rightarrow> (Inl err, a2)
              | Inr response \<Rightarrow>
                  (Inr (Some response),
                   a2\<lparr>message_history := h2 @ [resp_message response]\<rparr>)))"

text \<open>
  \<^verbatim>\<open>emit\<close>: an event from this agent, published with the blocking \<^verbatim>\<open>publish\<close>. \<open>eid\<close> and
  \<open>now\<close> are the event's fresh id and the clock at the call.
\<close>

definition emit ::
  "string \<Rightarrow> (string \<times> pyval) list \<Rightarrow> event_priority \<Rightarrow> string \<Rightarrow> real
     \<Rightarrow> 'p agent \<Rightarrow> 'w bus \<Rightarrow> 'w bus option" where
  "emit tp pl pr eid now a b =
     publish \<lparr>topic = tp, payload = pl, source = agent_id a, event_id = eid, timestamp = now,
              priority = pr, metadata = []\<rparr> b"

text \<open>
  What one run of \<^verbatim>\<open>on_event\<close> does to the agent and the bus: \<open>None\<close> when it never
  returns (it waits on a full queue), otherwise whether it raised, and the agent and the
  bus it leaves. \<^verbatim>\<open>on_event\<close> is the method subclasses override, so \<open>handle_event\<close> takes
  it as an argument.
\<close>

type_synonym ('p, 'w) on_event =
  "event \<Rightarrow> 'p agent \<times> 'w bus \<Rightarrow> (string option \<times> 'p agent \<times> 'w bus) option"

text \<open>The default \<^verbatim>\<open>on_event\<close> of the base class.\<close>

definition on_event :: "string \<Rightarrow> real \<Rightarrow> ('p, 'w) on_event" where
  "on_event eid now e ab =
     (let content0 = dict_get (payload e) ''content'' (PyStr []);
          content1 = (if \<not> truthy content0 then dict_get (payload e) ''message'' (PyStr [])
                      else content0)
      in if \<not> truthy content1 then Some (None, fst ab, snd ab)
         else (case think content1 (fst ab) of
                 (Inl err, a') \<Rightarrow> Some (Some err, a', snd ab)
               | (Inr None, a') \<Rightarrow> Some (None, a', snd ab)
               | (Inr (Some response), a') \<Rightarrow>
                   (case emit (''agent.response.'' @ cfg_name (config a'))
                           [(''agent_id'', PyStr (agent_id a')),
                            (''content'', content (resp_message response)),
                            (''model'', PyStr (resp_model response)),
                            (''usage'', PyDict (map (\<lambda>(k, n). (k, PyInt n)) (usage response))),
                            (''source_event'', PyStr (event_id e))]
                           NORMAL eid now a' (snd ab) of
                      None \<Rightarrow> None
                    | Some b' \<Rightarrow> Some (None, a', b'))))"




text \<open>\<^verbatim>\<open>shutdown\<close>.\<close>

definition shutdown :: "'p agent \<times> 'w bus \<Rightarrow> 'p agent \<times> 'w bus" where
  "shutdown ab = ((fst ab)\<lparr>state := SHUTDOWN\<rparr>, snd (unsubscribe (agent_id (fst ab)) (snd ab)))"

section \<open>The task scheduler (swarmx/core/scheduler.py)\<close>

datatype task_status = PENDING | SCHEDULED | RUNNING | COMPLETED | FAILED | CANCELLED

text \<open>
  The dataclass \<^verbatim>\<open>Task\<close> (\<^verbatim>\<open>name\<close>, \<^verbatim>\<open>payload\<close>, \<^verbatim>\<open>priority\<close> carry the prefix \<open>task\<close>). Times
  are the floats of \<^verbatim>\<open>time.time()\<close>, as reals; \<open>result\<close> and \<open>error\<close> hold what the
  completion and failure events carried, \<open>PyNone\<close> before.
\<close>

record task =
  task_id :: string
  task_name :: string
  description :: string
  target_topic :: string
  task_payload :: "(string \<times> pyval) list"
  task_priority :: event_priority
  status :: task_status
  depends_on :: "string list"
  created_at :: real
  started_at :: "real option"
  completed_at :: "real option"
  result :: pyval
  error :: pyval
  delay_seconds :: real

text \<open>
  The scheduler: the dictionary \<^verbatim>\<open>_tasks\<close> in insertion order, the bus it publishes on, and
  the flag \<^verbatim>\<open>_running\<close>. \<^verbatim>\<open>_pending_queue\<close> and \<^verbatim>\<open>_scheduler_task\<close> are never used by the
  source. A task object is identified with its entry in \<^verbatim>\<open>_tasks\<close>: the methods that
  mutate a task update the entry under the key the task was stored with. The
  environment is part of the state: \<open>clock\<close> is what \<^verbatim>\<open>time.time()\<close> returns and
  \<^verbatim>\<open>asyncio.sleep(d)\<close> advances it by \<open>d\<close>; \<open>uuids\<close> are the event ids handed out, \<open>issued\<close>
  counts them.
\<close>

record 'w scheduler =
  tasks :: "(string \<times> task) list"
  event_bus :: "'w bus"
  sched_running :: bool
  clock :: real
  uuids :: "nat \<Rightarrow> string"
  issued :: nat

text \<open>
  The constructor subscribes the two completion handlers (the bound methods, as bus
  handlers \<open>h_completed\<close> and \<open>h_failed\<close>) under the subscriber id \<^verbatim>\<open>"scheduler"\<close>.
\<close>

definition new_scheduler ::
  "'w event_handler \<Rightarrow> 'w event_handler \<Rightarrow> real \<Rightarrow> (nat \<Rightarrow> string) \<Rightarrow> 'w bus \<Rightarrow> 'w scheduler" where
  "new_scheduler h_completed h_failed now ids b =
     \<lparr>tasks = [],
      event_bus = snd (subscribe ''task.failed'' h_failed ''scheduler'' NORMAL []
                    (snd (subscribe ''task.completed'' h_completed ''scheduler'' NORMAL [] b))),
      sched_running = False, clock = now, uuids = ids, issued = 0\<rparr>"

text \<open>\<^verbatim>\<open>task.<field> = ...\<close> on the task stored under \<open>k\<close>.\<close>

definition set_task :: "string \<Rightarrow> task \<Rightarrow> 'w scheduler \<Rightarrow> 'w scheduler" where
  "set_task k t s = s\<lparr>tasks := AList.update k t (tasks s)\<rparr>"

text \<open>\<^verbatim>\<open>_can_schedule\<close>: every dependency is a known task whose status is \<open>COMPLETED\<close>.\<close>

definition can_schedule :: "'w scheduler \<Rightarrow> task \<Rightarrow> bool" where
  "can_schedule s t =
     list_all (\<lambda>dep_id. case map_of (tasks s) dep_id of
                           None \<Rightarrow> False
                         | Some dep_task \<Rightarrow> status dep_task = COMPLETED)
       (depends_on t)"

text \<open>
  The event \<^verbatim>\<open>_schedule_task\<close> publishes. The payload is the dictionary display
  \<^verbatim>\<open>{"task_id": .., "name": .., "description": .., "content": .., **task.payload}\<close>: the
  entries of the task's payload overwrite the four fixed ones and add the rest.
\<close>

definition task_event_payload :: "task \<Rightarrow> (string \<times> pyval) list" where
  "task_event_payload t =
     foldl (\<lambda>d (k, v). AList.update k v d)
       [(''task_id'', PyStr (task_id t)), (''name'', PyStr (task_name t)),
        (''description'', PyStr (description t)),
        (''content'', dict_get (task_payload t) ''content'' (PyStr (description t)))]
       (task_payload t)"

definition task_event :: "task \<Rightarrow> string \<Rightarrow> real \<Rightarrow> event" where
  "task_event t eid now =
     \<lparr>topic = target_topic t, payload = task_event_payload t, source = ''scheduler'',
      event_id = eid, timestamp = now, priority = task_priority t,
      metadata = [(''task_id'', PyStr (task_id t))]\<rparr>"

text \<open>
  \<^verbatim>\<open>_schedule_task\<close> in three pieces, cut at its one suspension point. \<open>begin_delay\<close> is the
  assignment before \<^verbatim>\<open>await asyncio.sleep\<close>: its result is the scheduler's state while the
  coroutine sleeps. \<open>sleep\<close> is the sleep itself. \<open>run_task\<close> is the rest: the task under
  \<open>k\<close> becomes \<open>RUNNING\<close>, \<open>started_at\<close> is stamped, and the event is published (\<open>None\<close>
  when the publisher has to wait on a full queue).
\<close>

definition begin_delay :: "string \<Rightarrow> task \<Rightarrow> 'w scheduler \<Rightarrow> 'w scheduler" where
  "begin_delay k t s = set_task k (t\<lparr>status := SCHEDULED\<rparr>) s"

definition sleep :: "real \<Rightarrow> 'w scheduler \<Rightarrow> 'w scheduler" where
  "sleep d s = s\<lparr>clock := clock s + d\<rparr>"

definition run_task :: "string \<Rightarrow> 'w scheduler \<Rightarrow> 'w scheduler option" where
  "run_task k s =
     (case map_of (tasks s) k of
        None \<Rightarrow> Some s
      | Some t \<Rightarrow>
          (let t1 = t\<lparr>status := RUNNING, started_at := Some (clock s)\<rparr>;
               s1 = set_task k t1 s
           in case publish (task_event t1 (uuids s1 (issued s1)) (clock s1)) (event_bus s1) of
                None \<Rightarrow> None
              | Some b \<Rightarrow> Some (s1\<lparr>event_bus := b, issued := Suc (issued s1)\<rparr>)))"

text \<open>
  \<^verbatim>\<open>_schedule_task\<close> for the task stored under \<open>k\<close> (every call of the source passes a task
  of \<^verbatim>\<open>_tasks\<close>; for a key without a task nothing happens).
\<close>

definition schedule_task :: "string \<Rightarrow> 'w scheduler \<Rightarrow> 'w scheduler option" where
  "schedule_task k s =
     (case map_of (tasks s) k of
        None \<Rightarrow> Some s
      | Some t \<Rightarrow>
          if status t = CANCELLED then Some s
          else run_task k (if 0 < delay_seconds t
                           then sleep (delay_seconds t) (begin_delay k t s) else s))"

text \<open>\<^verbatim>\<open>submit\<close> and \<^verbatim>\<open>submit_many\<close>; the result pairs the returned ids with the state.\<close>

definition submit :: "task \<Rightarrow> 'w scheduler \<Rightarrow> (string \<times> 'w scheduler) option" where
  "submit t s =
     (let s1 = set_task (task_id t) t s
      in if can_schedule s1 t
         then (case schedule_task (task_id t) s1 of
                 None \<Rightarrow> None
               | Some s2 \<Rightarrow> Some (task_id t, s2))
         else Some (task_id t, s1))"

fun submit_many :: "task list \<Rightarrow> 'w scheduler \<Rightarrow> (string list \<times> 'w scheduler) option" where
  "submit_many [] s = Some ([], s)"
| "submit_many (t # ts) s =
     (case submit t s of
        None \<Rightarrow> None
      | Some (i, s1) \<Rightarrow>
          (case submit_many ts s1 of
             None \<Rightarrow> None
           | Some (is, s2) \<Rightarrow> Some (i # is, s2)))"

definition get_status :: "string \<Rightarrow> 'w scheduler \<Rightarrow> task_status option" where
  "get_status k s = map_option status (map_of (tasks s) k)"

text \<open>\<^verbatim>\<open>cancel\<close>.\<close>

definition cancel :: "string \<Rightarrow> 'w scheduler \<Rightarrow> bool \<times> 'w scheduler" where
  "cancel k s =
     (case map_of (tasks s) k of
        None \<Rightarrow> (False, s)
      | Some t \<Rightarrow>
          if status t = PENDING \<or> status t = SCHEDULED
          then (True, set_task k (t\<lparr>status := CANCELLED\<rparr>) s)
          else (False, s))"

text \<open>
  \<^verbatim>\<open>_check_dependents\<close>: the loop over \<^verbatim>\<open>self._tasks.values()\<close>, by the keys in insertion
  order, reading each task as it is when its turn comes and awaiting \<^verbatim>\<open>_schedule_task\<close>
  for it before going on.
\<close>

fun check_dependents_loop :: "string \<Rightarrow> string list \<Rightarrow> 'w scheduler \<Rightarrow> 'w scheduler option" where
  "check_dependents_loop cid [] s = Some s"
| "check_dependents_loop cid (k # ks) s =
     (case map_of (tasks s) k of
        None \<Rightarrow> check_dependents_loop cid ks s
      | Some t \<Rightarrow>
          if status t = PENDING \<and> cid \<in> set (depends_on t) \<and> can_schedule s t
          then (case schedule_task k s of
                  None \<Rightarrow> None
                | Some s1 \<Rightarrow> check_dependents_loop cid ks s1)
          else check_dependents_loop cid ks s)"

definition check_dependents :: "string \<Rightarrow> 'w scheduler \<Rightarrow> 'w scheduler option" where
  "check_dependents cid s = check_dependents_loop cid (map fst (tasks s)) s"

text \<open>
  The lookup \<^verbatim>\<open>self._tasks.get(event.payload.get("task_id", ""))\<close>: a string is looked up, a
  list or a dictionary is unhashable and raises \<^verbatim>\<open>TypeError\<close>, any other value is no key
  of the dictionary.
\<close>

definition named_task :: "event \<Rightarrow> 'w scheduler \<Rightarrow> string + (string \<times> task) option" where
  "named_task e s =
     (case dict_get (payload e) ''task_id'' (PyStr []) of
        PyStr k \<Rightarrow> Inr (map_option (Pair k) (map_of (tasks s) k))
      | PyList xs \<Rightarrow> Inl ''TypeError''
      | PyDict kvs \<Rightarrow> Inl ''TypeError''
      | _ \<Rightarrow> Inr None)"

text \<open>
  \<^verbatim>\<open>_on_task_completed\<close> and \<^verbatim>\<open>_on_task_failed\<close>: whether the handler raised, and the state
  it leaves; \<open>None\<close> when it never returns.
\<close>

definition on_task_completed ::
  "event \<Rightarrow> 'w scheduler \<Rightarrow> (string option \<times> 'w scheduler) option" where
  "on_task_completed e s =
     (case named_task e s of
        Inl err \<Rightarrow> Some (Some err, s)
      | Inr None \<Rightarrow> Some (None, s)
      | Inr (Some (k, t)) \<Rightarrow>
          (let s1 = set_task k (t\<lparr>status := COMPLETED, completed_at := Some (clock s),
                                   result := dict_get (payload e) ''result'' PyNone\<rparr>) s
           in case check_dependents k s1 of
                None \<Rightarrow> None
              | Some s2 \<Rightarrow> Some (None, s2)))"

definition on_task_failed ::
  "event \<Rightarrow> 'w scheduler \<Rightarrow> (string option \<times> 'w scheduler) option" where
  "on_task_failed e s =
     (case named_task e s of
        Inl err \<Rightarrow> Some (Some err, s)
      | Inr None \<Rightarrow> Some (None, s)
      | Inr (Some (k, t)) \<Rightarrow>
          Some (None,
                set_task k (t\<lparr>status := FAILED, completed_at := Some (clock s),
                              error := dict_get (payload e) ''error'' (PyStr ''Unknown error'')\<rparr>) s))"



text \<open>What a completed \<open>schedule_task\<close> has done, for a task that is not cancelled.\<close>

definition scheduled_state :: "string \<Rightarrow> task \<Rightarrow> 'w scheduler \<Rightarrow> 'w scheduler" where
  "scheduled_state k t s =
     (let now = clock s + (if 0 < delay_seconds t then delay_seconds t else 0);
          t1 = t\<lparr>status := RUNNING, started_at := Some now\<rparr>
      in s\<lparr>tasks := AList.update k t1 (tasks s), clock := now,
            event_bus := enqueue (task_event t1 (uuids s (issued s)) now) (event_bus s),
            issued := Suc (issued s)\<rparr>)"

section \<open>The configuration loader (swarmx/utils/config.py)\<close>

text \<open>
  A Python \<^verbatim>\<open>str\<close> of the configuration is the list of its code points, so that every
  string is there, also one with a lone surrogate (the YAML scalar \<^verbatim>\<open>"\ud800"\<close>); \<open>cps\<close>
  gives the code points of a literal. What \<^verbatim>\<open>yaml.safe_load\<close> returns is a \<open>yval\<close>, a
  dictionary being an association list in insertion order.
\<close>

type_synonym ustr = "nat list"

definition cps :: "string \<Rightarrow> ustr" where
  "cps s = map of_char s"

datatype yval =
    YNull
  | YBool bool
  | YInt int
  | YFloat real
  | YStr ustr
  | YList "yval list"
  | YDict "(ustr \<times> yval) list"

text \<open>
  \<^verbatim>\<open>os.environ\<close>: the variables, and which names the platform can encode. On POSIX
  \<^verbatim>\<open>os.environ.get(name, default)\<close> first encodes the name with the filesystem encoding and
  the \<^verbatim>\<open>surrogateescape\<close> handler, which raises \<^verbatim>\<open>UnicodeEncodeError\<close> for a name that
  cannot be encoded; then it looks the name up.
\<close>

record environ =
  env_vars :: "ustr \<rightharpoonup> ustr"
  env_encodes :: "ustr \<Rightarrow> bool"

datatype config_error = UnicodeEncodeError ustr

definition environ_get :: "environ \<Rightarrow> ustr \<Rightarrow> ustr \<Rightarrow> config_error + ustr" where
  "environ_get env name dflt =
     (if env_encodes env name
      then Inr (case env_vars env name of None \<Rightarrow> dflt | Some x \<Rightarrow> x)
      else Inl (UnicodeEncodeError name))"

text \<open>
  UTF-8 with \<^verbatim>\<open>surrogateescape\<close>: every code point is encoded except the surrogates
  U+D800 to U+DFFF, of which U+DC80 to U+DCFF are turned back into the bytes they stand for.
\<close>

definition utf8_surrogateescape :: "ustr \<Rightarrow> bool" where
  "utf8_surrogateescape name =
     list_all (\<lambda>c. c < 0xD800 \<or> 0xDFFF < c \<or> (0xDC80 \<le> c \<and> c \<le> 0xDCFF)) name"

definition posix_environ :: "(ustr \<rightharpoonup> ustr) \<Rightarrow> environ" where
  "posix_environ vars = \<lparr>env_vars = vars, env_encodes = utf8_surrogateescape\<rparr>"

text \<open>
  \<^verbatim>\<open>resolve_env_vars\<close>. The argument is whatever the parsed YAML held. The result is the
  exception raised, or the returned value with the warnings logged. Only a string that
  starts with \<^verbatim>\<open>"${"\<close> and ends with \<^verbatim>\<open>"}"\<close> is looked up, under the name \<^verbatim>\<open>value[2:-1]\<close>; a
  variable that is unset or empty gives the empty string and a warning.
\<close>

definition resolve_env_vars :: "environ \<Rightarrow> yval \<Rightarrow> config_error + (yval \<times> ustr list)" where
  "resolve_env_vars env v =
     (case v of
        YStr s \<Rightarrow>
          if startswith s (cps ''${'') \<and> endswith s (cps ''}'')
          then (let env_var = py_slice (Some 2) (Some (- 1)) s
                in case environ_get env env_var [] of
                     Inl err \<Rightarrow> Inl err
                   | Inr resolved \<Rightarrow>
                       Inr (YStr resolved,
                            if resolved = []
                            then [cps ''Environment variable not set: '' @ env_var] else []))
          else Inr (v, [])
      | _ \<Rightarrow> Inr (v, []))"

text \<open>
  \<^verbatim>\<open>ProviderConfig\<close>, and the one that \<^verbatim>\<open>build_engine_from_config\<close> builds from a provider's
  definition \<open>d\<close> (a dictionary of the parsed YAML): every field is read with its default,
  and the \<^verbatim>\<open>api_key\<close> alone goes through \<open>resolve_env_vars\<close>, whose exception ends the load.
  The registration of the provider that follows is not part of this model.
\<close>

record provider_config =
  api_key :: yval
  model :: yval
  base_url :: yval
  pc_temperature :: yval
  max_tokens :: yval
  timeout :: yval
  extra :: yval

definition provider_config_of ::
  "environ \<Rightarrow> (ustr \<times> yval) list \<Rightarrow> config_error + (provider_config \<times> ustr list)" where
  "provider_config_of env d =
     (case resolve_env_vars env (dict_get d (cps ''api_key'') (YStr [])) of
        Inl err \<Rightarrow> Inl err
      | Inr (key, warnings) \<Rightarrow>
          Inr (\<lparr>api_key = key,
                model = dict_get d (cps ''model'') (YStr []),
                base_url = dict_get d (cps ''base_url'') YNull,
                pc_temperature = dict_get d (cps ''temperature'') (YFloat 0.7),
                max_tokens = dict_get d (cps ''max_tokens'') (YInt 4096),
                timeout = dict_get d (cps ''timeout'') (YFloat 60),
                extra = dict_get d (cps ''extra'') (YDict [])\<rparr>,
               warnings))"

text \<open>
  The \<^verbatim>\<open>AgentConfig\<close> that \<^verbatim>\<open>build_engine_from_config\<close> builds from an agent's name and
  definition: every field is read with its default, none is resolved, and the environment
  is not consulted. The dataclass does not check the types of the values it is given.
\<close>

record loaded_agent_config =
  lc_name :: ustr
  lc_provider :: yval
  lc_model :: yval
  lc_system_prompt :: yval
  lc_subscriptions :: yval
  lc_tools :: yval
  lc_max_history :: yval
  lc_temperature :: yval
  lc_metadata :: yval

definition agent_config_of :: "ustr \<Rightarrow> (ustr \<times> yval) list \<Rightarrow> loaded_agent_config" where
  "agent_config_of agent_name d =
     \<lparr>lc_name = agent_name,
      lc_provider = dict_get d (cps ''provider'') (YStr []),
      lc_model = dict_get d (cps ''model'') (YStr []),
      lc_system_prompt = dict_get d (cps ''system_prompt'') (YStr []),
      lc_subscriptions = dict_get d (cps ''subscriptions'') (YList [YStr (cps ''task.created'')]),
      lc_tools = dict_get d (cps ''tools'') (YList []),
      lc_max_history = dict_get d (cps ''max_history'') (YInt 50),
      lc_temperature = dict_get d (cps ''temperature'') YNull,
      lc_metadata = dict_get d (cps ''metadata'') (YDict [])\<rparr>"

section \<open>Example data\<close>

definition ev :: "string \<Rightarrow> event" where
  "ev t = \<lparr>topic = t, payload = [], source = [], event_id = [], timestamp = 0,
           priority = NORMAL, metadata = []\<rparr>"

text \<open>A handler that does nothing, one that appends its name and the topic to a log.\<close>

definition quiet_handler :: "'w event_handler" where
  "quiet_handler e w = \<lparr>fault = None, emitted = [], world = w\<rparr>"

definition log_handler :: "string \<Rightarrow> (string \<times> string) list event_handler" where
  "log_handler me e w = \<lparr>fault = None, emitted = [], world = w @ [(me, topic e)]\<rparr>"

text \<open>The two handlers of the error isolation test, on an unbounded bus.\<close>

definition failing_handler :: "'w event_handler" where
  "failing_handler e w = \<lparr>fault = Some (Exc ''Handler error''), emitted = [], world = w\<rparr>"

definition isolation_bus :: "(string \<times> string) list bus" where
  "isolation_bus =
     snd (subscribe ''test'' (log_handler ''good'') ''good'' NORMAL []
       (snd (subscribe ''test'' failing_handler ''bad'' NORMAL [] (new_bus 0))))"

text \<open>
  A handler that raises \<^verbatim>\<open>asyncio.CancelledError\<close>, which is not an \<^verbatim>\<open>Exception\<close>, and a
  bus where it is subscribed before the logging handler.
\<close>

definition cancelled_handler :: "'w event_handler" where
  "cancelled_handler e w = \<lparr>fault = Some CancelledError, emitted = [], world = w\<rparr>"

definition cancelling_bus :: "(string \<times> string) list bus" where
  "cancelling_bus =
     snd (subscribe ''test'' (log_handler ''good'') ''good'' NORMAL []
       (snd (subscribe ''test'' cancelled_handler ''bad'' NORMAL [] (new_bus 0))))"

text \<open>
  A bus with three logging subscribers, registered in this order: one for \<open>task.*\<close>, one
  for \<open>test.topic\<close>, one for everything.
\<close>

definition routing_bus :: "(string \<times> string) list bus" where
  "routing_bus =
     snd (subscribe ''*'' (log_handler ''all'') ''all'' NORMAL []
       (snd (subscribe ''test.topic'' (log_handler ''exact'') ''exact'' NORMAL []
         (snd (subscribe ''task.*'' (log_handler ''wild'') ''wild'' NORMAL [] (new_bus 0))))))"

text \<open>
  A handler that appends the id of the event to a log. A bus with this handler subscribed
  to the topic \<open>t\<close> is started and its dispatch task reaches the wait for the queue; then
  the events \<open>e1\<close> and \<open>e2\<close> are published on \<open>t\<close> and \<^verbatim>\<open>stop()\<close> is called.
\<close>

definition id_logger :: "string list event_handler" where
  "id_logger e w = \<lparr>fault = None, emitted = [], world = w @ [event_id e]\<rparr>"

definition event_with_id :: "string \<Rightarrow> string \<Rightarrow> event" where
  "event_with_id t i = (ev t)\<lparr>event_id := i\<rparr>"

definition stopping_runtime :: "string list runtime option" where
  "stopping_runtime =
     (case loop_step
             (start (new_runtime
                       (snd (subscribe ''t'' id_logger ''h'' NORMAL [] (new_bus 10000))) [])) of
        None \<Rightarrow> None
      | Some rt0 \<Rightarrow>
          (case rt_publish (event_with_id ''t'' ''e1'') rt0 of
             None \<Rightarrow> None
           | Some rt1 \<Rightarrow> map_option call_stop (rt_publish (event_with_id ''t'' ''e2'') rt1)))"

text \<open>
  The provider definition of the configuration test, and one whose model is written as a
  placeholder.
\<close>

definition test_provider :: "(ustr \<times> yval) list" where
  "test_provider =
     [(cps ''api_key'', YStr (cps ''${TEST_SWARMX_KEY}'')), (cps ''model'', YStr (cps ''test-model''))]"

definition model_placeholder_provider :: "(ustr \<times> yval) list" where
  "model_placeholder_provider =
     [(cps ''api_key'', YStr (cps ''k'')), (cps ''model'', YStr (cps ''${MODEL}''))]"


definition mock_provider :: "nat provider" where
  "mock_provider =
     \<lparr>complete = (\<lambda>n ms ts kw.
         (Inr \<lparr>resp_message = \<lparr>role = ASSISTANT, content = PyInt (int (Suc n))\<rparr>,
               finish_reason = ''stop'',
               usage = [(''prompt_tokens'', 10), (''completion_tokens'', 5), (''total_tokens'', 15)],
               raw_response = PyNone, resp_model = ''mock-model''\<rparr>,
          Suc n)),
      pstate = 0\<rparr>"

definition worker_config :: "string \<Rightarrow> int \<Rightarrow> agent_config" where
  "worker_config prompt cap =
     \<lparr>cfg_name = ''worker'', cfg_provider = ''mock'', cfg_model = [], system_prompt = prompt,
      cfg_subscriptions = [''task.created''], tools = [], max_history = cap,
      temperature = None, cfg_metadata = []\<rparr>"

text \<open>An initialized agent on an unbounded bus of its own, for a provider, a prompt and a cap.\<close>

definition ready :: "nat provider \<Rightarrow> string \<Rightarrow> int \<Rightarrow> nat agent \<times> unit bus" where
  "ready p prompt cap =
     snd (initialize [(''mock'', p)] quiet_handler
            (new_agent (worker_config prompt cap) ''abc123'', new_bus 0))"

definition content_event :: event where
  "content_event = (ev ''task.created'')\<lparr>payload := [(''content'', PyStr ''Do something'')]\<rparr>"

text \<open>
  A scheduler on an unbounded bus at time 0, tasks with a name, dependencies and a
  delay, the completion and failure events of a task, and two runs: a task that runs and
  fails; and three tasks, the second and third depending on the first, which runs.
\<close>

definition sched0 :: "unit scheduler" where
  "sched0 = new_scheduler quiet_handler quiet_handler 0 (\<lambda>n. ''event'') (new_bus 0)"

definition mk_task :: "string \<Rightarrow> string list \<Rightarrow> real \<Rightarrow> task" where
  "mk_task i deps d =
     \<lparr>task_id = i, task_name = i, description = [], target_topic = ''task.created'',
      task_payload = [], task_priority = NORMAL, status = PENDING, depends_on = deps,
      created_at = 0, started_at = None, completed_at = None, result = PyNone, error = PyNone,
      delay_seconds = d\<rparr>"

definition completed_event :: "string \<Rightarrow> event" where
  "completed_event i =
     (ev ''task.completed'')\<lparr>payload := [(''task_id'', PyStr i), (''result'', PyStr ''done'')]\<rparr>"

definition failed_event :: "string \<Rightarrow> event" where
  "failed_event i =
     (ev ''task.failed'')\<lparr>payload := [(''task_id'', PyStr i), (''error'', PyStr ''Something broke'')]\<rparr>"


definition chain_run :: "unit scheduler option" where
  "chain_run =
     map_option snd
       (submit_many [mk_task ''A'' [] 0, mk_task ''B'' [''A''] 5, mk_task ''C'' [''A''] 0] sched0)"

text \<open>
  The state in which the completion of \<open>A\<close> has just been recorded: \<open>B\<close> (delay 5) and \<open>C\<close>
  (no delay) wait for \<open>A\<close>.
\<close>

definition waiting_state :: "unit scheduler" where
  "waiting_state =
     sched0\<lparr>tasks := [(''A'', (mk_task ''A'' [] 0)\<lparr>status := COMPLETED\<rparr>),
                      (''B'', mk_task ''B'' [''A''] 5), (''C'', mk_task ''C'' [''A''] 0)]\<rparr>"

section \<open>Splitting and joining topics\<close>

lemma split_on_nonempty: "split_on c s \<noteq> []"
  by (induction s) (auto simp: Let_def)

lemma split_on_append: "split_on c (a @ c # b) = split_on c a @ split_on c b"
  by (induction a) (auto simp: Let_def split_on_nonempty)

lemma join_split_on: "join [c] (split_on c s) = s"
proof (induction s)
  case Nil then show ?case by simp
next
  case (Cons x s)
  obtain p ps where r: "split_on c s = p # ps" using split_on_nonempty by (cases "split_on c s") auto
  show ?case using Cons r by (cases ps) (auto simp: Let_def)
qed

lemma join_append:
  "xs \<noteq> [] \<Longrightarrow> ys \<noteq> [] \<Longrightarrow> join sep (xs @ ys) = join sep xs @ sep @ join sep ys"
proof (induction sep xs rule: join.induct)
  case (2 sep p)
  then show ?case by (cases ys) auto
qed auto

lemma wildcard_enumerated:
  "\<exists>i < length (split_on CHR ''.'' (T @ ''.'' @ x)) - 1.
     join ''.'' (take (i + 1) (split_on CHR ''.'' (T @ ''.'' @ x))) = T"
proof -
  let ?a = "split_on CHR ''.'' T" and ?b = "split_on CHR ''.'' x"
  have parts: "split_on CHR ''.'' (T @ ''.'' @ x) = ?a @ ?b"
    using split_on_append [of "CHR ''.''" T x] by simp
  have a: "?a \<noteq> []" and b: "?b \<noteq> []" by (rule split_on_nonempty)+
  have "length ?a - 1 < length (?a @ ?b) - 1" using a b by (cases ?a; cases ?b) auto
  moreover have "take (length ?a - 1 + 1) (?a @ ?b) = ?a" using a by (cases ?a) auto
  ultimately show ?thesis using parts join_split_on [of "CHR ''.''" T] by auto
qed

lemma wildcard_at_prefix:
  assumes "wildcard_at (split_on CHR ''.'' t) i \<noteq> []"
  shows "\<exists>T. wildcard_at (split_on CHR ''.'' t) i = T @ ''.*'' \<and> startswith t (T @ ''.'')"
proof -
  let ?ps = "split_on CHR ''.'' t"
  from assms have i: "i < length ?ps - 1" by (auto simp: wildcard_at_def split: if_splits)
  then have ne: "take (i + 1) ?ps \<noteq> []" "drop (i + 1) ?ps \<noteq> []" by auto
  have "t = join ''.'' (take (i + 1) ?ps @ drop (i + 1) ?ps)"
    using join_split_on [of "CHR ''.''" t] by simp
  also have "\<dots> = join ''.'' (take (i + 1) ?ps) @ ''.'' @ join ''.'' (drop (i + 1) ?ps)"
    using ne by (rule join_append)
  finally have "startswith t (join ''.'' (take (i + 1) ?ps) @ ''.'')"
    unfolding startswith_def prefix_def by (metis append.assoc)
  then show ?thesis using i by (auto simp: wildcard_at_def)
qed

lemma py_slice_drop_last_two: "py_slice None (Some (- 2)) (T @ [a, b]) = T"
  by (simp add: py_slice_def py_index_def)

lemma endswith_wildcard: "endswith p ''.*'' \<Longrightarrow> \<exists>T. p = T @ ''.*''"
  by (auto simp: endswith_def suffix_def)

section \<open>What one dispatch does\<close>

lemma publish_all_eq:
  "publish_all es b =
     (if fits b (length es)
      then Some (b\<lparr>event_queue := event_queue b @ es,
                   published := published b + int (length es)\<rparr>)
      else None)"
proof (induction es arbitrary: b)
  case Nil
  then show ?case by (simp add: fits_def)
next
  case (Cons e es)
  show ?case
  proof (cases "queue_full b")
    case True
    then show ?thesis by (simp add: publish_def fits_def queue_full_def)
  next
    case False
    have "fits (enqueue e b) (length es) = fits b (length (e # es))"
      using False by (auto simp: fits_def enqueue_def queue_full_def)
    then show ?thesis using False Cons.IH [of "enqueue e b"]
      by (simp add: publish_def enqueue_def)
  qed
qed

lemma fits_append:
  "fits b (length (xs @ ys))
     = (fits b (length xs)
        \<and> fits (b\<lparr>event_queue := event_queue b @ xs, published := p, errors := c\<rparr>) (length ys))"
  by (auto simp: fits_def)

lemma safe_call_eq:
  "safe_call h e sid (b, w) =
     (if fits b (length (emitted (h e w)))
      then Some (case fault (h e w) of
                   None \<Rightarrow> None
                 | Some x \<Rightarrow> if is_exception x then None else Some x,
                 b\<lparr>event_queue := event_queue b @ emitted (h e w),
                   published := published b + int (length (emitted (h e w))),
                   errors := errors b
                     + (case fault (h e w) of
                          None \<Rightarrow> 0
                        | Some x \<Rightarrow> if is_exception x then 1 else 0)\<rparr>,
                 world (h e w))
      else None)"
  by (simp add: safe_call_def Let_def publish_all_eq split: option.splits)

lemma gather_safe_calls_eq:
  "gather_safe_calls hs e (b, w) =
     (if fits b (length (emissions hs e w))
      then Some (first_escaped hs e w,
                 b\<lparr>event_queue := event_queue b @ emissions hs e w,
                   published := published b + int (length (emissions hs e w)),
                   errors := errors b + count_caught hs e w\<rparr>,
                 run_world hs e w)
      else None)"
proof (induction hs arbitrary: b w)
  case Nil
  then show ?case by (simp add: fits_def)
next
  case (Cons s hs)
  let ?r = "handler s e w"
  let ?c = "case fault ?r of None \<Rightarrow> (0 :: int) | Some x \<Rightarrow> if is_exception x then 1 else 0"
  let ?b1 = "b\<lparr>event_queue := event_queue b @ emitted ?r,
               published := published b + int (length (emitted ?r)),
               errors := errors b + ?c\<rparr>"
  have split: "fits b (length (emissions (s # hs) e w))
     = (fits b (length (emitted ?r)) \<and> fits ?b1 (length (emissions hs e (world ?r))))"
    using fits_append [of b "emitted ?r" "emissions hs e (world ?r)"] by (simp add: Let_def)
  show ?case
  proof (cases "fits b (length (emitted ?r))")
    case False
    then show ?thesis using split by (simp add: safe_call_eq)
  next
    case True
    show ?thesis
    proof (cases "fits ?b1 (length (emissions hs e (world ?r)))")
      case False
      then show ?thesis using True split Cons.IH [of ?b1 "world ?r"] by (simp add: safe_call_eq)
    next
      case fits: True
      have "fits b (length (emissions (s # hs) e w))" using True fits split by simp
      then show ?thesis using True fits Cons.IH [of ?b1 "world ?r"]
        by (simp add: safe_call_eq Let_def split: option.splits)
    qed
  qed
qed

lemma matching_handlers_cong:
  assumes "subscriptions b' = subscriptions b" "global_subscriptions b' = global_subscriptions b"
  shows "matching_handlers b' t = matching_handlers b t"
proof -
  have same: "subs_at b' = subs_at b" by (rule ext) (simp add: subs_at_def assms)
  show ?thesis
    unfolding matching_handlers_def exact_matches_def wildcard_matches_def
      parent_wildcard_matches_def assms same ..
qed

lemma matching_handlers_record_history [simp]:
  "matching_handlers (record_history e b) t = matching_handlers b t"
  by (rule matching_handlers_cong) (simp_all add: record_history_def Let_def)

lemma fits_record_history [simp]: "fits (record_history e b) n = fits b n"
  by (simp add: fits_def record_history_def Let_def)

lemma record_history_fields [simp]:
  "event_queue (record_history e b) = event_queue b"
  "published (record_history e b) = published b"
  "errors (record_history e b) = errors b"
  "dispatched (record_history e b) = dispatched b"
  "max_queue_size (record_history e b) = max_queue_size b"
  "running (record_history e b) = running b"
  "dispatch_task (record_history e b) = dispatch_task b"
  "subscriptions (record_history e b) = subscriptions b"
  "global_subscriptions (record_history e b) = global_subscriptions b"
  by (simp_all add: record_history_def Let_def)

lemma dispatch_event_eq:
  "dispatch_event e (b, w) =
     (if fits b (length (emissions (matching_handlers b (topic e)) e w))
      then Some (first_escaped (matching_handlers b (topic e)) e w,
                 (record_history e b)
                   \<lparr>event_queue := event_queue b @ emissions (matching_handlers b (topic e)) e w,
                    published := published b
                                 + int (length (emissions (matching_handlers b (topic e)) e w)),
                    errors := errors b + count_caught (matching_handlers b (topic e)) e w,
                    dispatched := dispatched b
                      + (if first_escaped (matching_handlers b (topic e)) e w = None then 1 else 0)\<rparr>,
                 run_world (matching_handlers b (topic e)) e w)
      else None)"
  by (simp add: dispatch_event_def begin_dispatch_def count_dispatched_def Let_def
        gather_safe_calls_eq split: option.splits)

lemma run_world_append:
  "run_world (pre @ post) e w = run_world post e (run_world pre e w)"
  by (induction pre arbitrary: w) simp_all

lemma count_caught_append:
  "count_caught (pre @ post) e w = count_caught pre e w + count_caught post e (run_world pre e w)"
  by (induction pre arbitrary: w) (simp_all add: Let_def)

lemma first_escaped_None:
  "\<forall>s \<in> set hs. \<forall>v x. fault (handler s e v) = Some x \<longrightarrow> is_exception x \<Longrightarrow>
     first_escaped hs e w = None"
  by (induction hs arbitrary: w) (auto simp: Let_def split: option.splits)

section \<open>Topic matching\<close>

lemma subs_at_patterns:
  "bus_ok b \<Longrightarrow> s \<in> set (subs_at b k) \<Longrightarrow> topic_pattern s = k \<and> k \<noteq> ''*''"
  by (auto simp: bus_ok_def subs_at_def list_all_iff split: option.splits dest!: map_of_SomeD)

lemma matching_handlers_sound:
  assumes ok: "bus_ok b" and s: "s \<in> set (matching_handlers b t)"
  shows "topic_pattern s = ''*'' \<or> topic_pattern s = t
         \<or> (\<exists>T. topic_pattern s = T @ ''.*'' \<and> startswith t (T @ ''.''))"
proof -
  let ?ps = "split_on CHR ''.'' t"
  from s consider
      (exact) "s \<in> set (exact_matches b t)"
    | (wild) "s \<in> set (wildcard_matches b ?ps)"
    | (parent) "s \<in> set (parent_wildcard_matches b t ?ps)"
    | (global) "s \<in> set (global_subscriptions b)"
    by (auto simp: matching_handlers_def Let_def)
  then show ?thesis
  proof cases
    case exact
    then show ?thesis using subs_at_patterns [OF ok] by (auto simp: exact_matches_def split: if_splits)
  next
    case wild
    then obtain i where "wildcard_at ?ps i \<noteq> []" "s \<in> set (subs_at b (wildcard_at ?ps i))"
      by (auto simp: wildcard_matches_def Let_def split: if_splits)
    then show ?thesis using subs_at_patterns [OF ok] wildcard_at_prefix [of t i] by metis
  next
    case parent
    then obtain k ss where k: "(k, ss) \<in> set (subscriptions b)" "s \<in> set ss" "endswith k ''.*''"
        "startswith t (py_slice None (Some (- 2)) k @ ''.'')"
      by (auto simp: parent_wildcard_matches_def split: if_splits)
    from k(3) obtain T where T: "k = T @ ''.*''" using endswith_wildcard by blast
    have "topic_pattern s = k" using ok k(1,2) by (auto simp: bus_ok_def list_all_iff)
    moreover have "py_slice None (Some (- 2)) k = T"
      using py_slice_drop_last_two [of T "CHR ''.''" "CHR ''*''"] T by simp
    ultimately show ?thesis using k(4) T by auto
  next
    case global
    then show ?thesis using ok by (auto simp: bus_ok_def list_all_iff)
  qed
qed

lemma bus_ok_new: "bus_ok (new_bus n)"
  by (simp add: bus_ok_def new_bus_def)

lemma update_set_subset: "set (AList.update k v al) \<subseteq> insert (k, v) (set al)"
  by (induction al) auto

lemma bus_ok_subscribe:
  assumes "bus_ok b"
  shows "bus_ok (snd (subscribe tp h sid pr fresh b))"
proof (cases "tp = ''*''")
  case True
  then show ?thesis using assms by (simp add: subscribe_def bus_ok_def new_sub_def Let_def)
next
  case False
  let ?v = "subs_at b tp @ [new_sub tp h sid pr fresh]"
  have old: "list_all (\<lambda>s. topic_pattern s = tp) (subs_at b tp)"
    using subs_at_patterns [OF assms] by (auto simp: list_all_iff)
  have "list_all (\<lambda>(k, ss). k \<noteq> ''*'' \<and> list_all (\<lambda>s. topic_pattern s = k) ss)
          (AList.update tp ?v (subscriptions b))"
    unfolding list_all_iff
  proof
    fix x assume "x \<in> set (AList.update tp ?v (subscriptions b))"
    then have "x = (tp, ?v) \<or> x \<in> set (subscriptions b)" using update_set_subset by fastforce
    then show "case x of (k, ss) \<Rightarrow> k \<noteq> ''*'' \<and> (\<forall>s\<in>set ss. topic_pattern s = k)"
      using False old assms by (auto simp: bus_ok_def list_all_iff new_sub_def)
  qed
  then show ?thesis
    using False assms by (simp add: subscribe_def bus_ok_def Let_def distinct_update)
qed

lemma subscribed_wildcard_delivered:
  "new_sub (T @ ''.*'') h sid pr fresh
     \<in> set (matching_handlers (snd (subscribe (T @ ''.*'') h sid pr fresh b)) (T @ ''.'' @ x))"
proof -
  let ?b = "snd (subscribe (T @ ''.*'') h sid pr fresh b)"
  let ?ps = "split_on CHR ''.'' (T @ ''.'' @ x)"
  have ne: "T @ ''.*'' \<noteq> ''*''" by (cases T) auto
  have at: "new_sub (T @ ''.*'') h sid pr fresh \<in> set (subs_at ?b (T @ ''.*''))"
    and key: "map_of (subscriptions ?b) (T @ ''.*'') \<noteq> None"
    using ne by (simp_all add: subscribe_def subs_at_def Let_def update_conv')
  obtain i where i: "i < length ?ps - 1" "join ''.'' (take (i + 1) ?ps) = T"
    using wildcard_enumerated [of T x] by blast
  then have w: "wildcard_at ?ps i = T @ ''.*''" by (simp add: wildcard_at_def)
  have "i \<in> set [0..<length ?ps]" using i(1) by simp
  then have "new_sub (T @ ''.*'') h sid pr fresh \<in> set (wildcard_matches ?b ?ps)"
    unfolding wildcard_matches_def using at key w by (auto simp: Let_def intro!: bexI [of _ i])
  then show ?thesis by (simp add: matching_handlers_def Let_def)
qed

lemma subscribed_exact_delivered:
  assumes "p \<noteq> ''*''"
  shows "new_sub p h sid pr fresh \<in> set (matching_handlers (snd (subscribe p h sid pr fresh b)) p)"
proof -
  let ?b = "snd (subscribe p h sid pr fresh b)"
  have "new_sub p h sid pr fresh \<in> set (subs_at ?b p)" "map_of (subscriptions ?b) p \<noteq> None"
    using assms by (simp_all add: subscribe_def subs_at_def Let_def update_conv')
  then have "new_sub p h sid pr fresh \<in> set (exact_matches ?b p)" by (simp add: exact_matches_def)
  then show ?thesis by (simp add: matching_handlers_def Let_def)
qed

lemma subscribed_global_delivered:
  "new_sub ''*'' h sid pr fresh \<in> set (matching_handlers (snd (subscribe ''*'' h sid pr fresh b)) t)"
  by (simp add: matching_handlers_def subscribe_def Let_def)

lemma topic_pattern_new_sub [simp]: "topic_pattern (new_sub p h sid pr fresh) = p"
  by (simp add: new_sub_def)

lemma bus_ok_unsubscribe:
  assumes "bus_ok b"
  shows "bus_ok (snd (unsubscribe sid b))"
proof -
  let ?keep = "filter (\<lambda>s. subscriber_id s \<noteq> sid)"
  let ?kept = "map (\<lambda>(k, ss). (k, ?keep ss)) (subscriptions b)"
  have keys: "map fst ?kept = map fst (subscriptions b)" by (induction "subscriptions b") auto
  have "distinct (map fst ?kept)" unfolding keys using assms by (simp add: bus_ok_def)
  then have "distinct (map fst (filter (\<lambda>(k, ss). ss \<noteq> []) ?kept))"
    by (rule distinct_map_filter)
  moreover have "list_all (\<lambda>(k, ss). k \<noteq> ''*'' \<and> list_all (\<lambda>s. topic_pattern s = k) ss)
                   (filter (\<lambda>(k, ss). ss \<noteq> []) ?kept)"
    using assms by (auto simp: bus_ok_def list_all_iff)
  moreover have "list_all (\<lambda>s. topic_pattern s = ''*'') (?keep (global_subscriptions b))"
    using assms by (auto simp: bus_ok_def list_all_iff)
  ultimately show ?thesis by (simp add: unsubscribe_def bus_ok_def Let_def)
qed

lemma all_subscriptions_iff:
  "s \<in> set (all_subscriptions b)
     \<longleftrightarrow> (\<exists>k ss. (k, ss) \<in> set (subscriptions b) \<and> s \<in> set ss)
         \<or> s \<in> set (global_subscriptions b)"
  by (force simp: all_subscriptions_def)

lemma matching_handlers_subset: "set (matching_handlers b t) \<subseteq> set (all_subscriptions b)"
proof
  fix s assume "s \<in> set (matching_handlers b t)"
  then consider "s \<in> set (subs_at b t)"
    | i where "s \<in> set (subs_at b (wildcard_at (split_on CHR ''.'' t) i))"
    | k ss where "(k, ss) \<in> set (subscriptions b)" "s \<in> set ss"
    | "s \<in> set (global_subscriptions b)"
    by (auto simp: matching_handlers_def exact_matches_def wildcard_matches_def
          parent_wildcard_matches_def Let_def split: if_splits)
  then show "s \<in> set (all_subscriptions b)"
    by cases (force simp: all_subscriptions_def subs_at_def split: option.splits
                dest: map_of_SomeD [OF sym])+
qed

lemma update_append_subscriptions:
  "set (concat (map snd
          (AList.update k ((case map_of al k of None \<Rightarrow> [] | Some ss \<Rightarrow> ss) @ [x]) al)))
     = insert x (set (concat (map snd al)))"
  by (induction al) auto

lemma all_subscriptions_subscribe:
  "set (all_subscriptions (snd (subscribe p h sid pr fresh b)))
     = insert (new_sub p h sid pr fresh) (set (all_subscriptions b))"
proof (cases "p = ''*''")
  case True
  then show ?thesis by (simp add: subscribe_def all_subscriptions_def Let_def)
next
  case False
  then show ?thesis
    using update_append_subscriptions [of p "subscriptions b" "new_sub p h sid pr fresh"]
    by (simp add: subscribe_def all_subscriptions_def Let_def subs_at_def)
qed

lemma registered_subscription_matched:
  assumes ok: "bus_ok b" and s: "s \<in> set (all_subscriptions b)"
    and m: "topic_pattern s = ''*'' \<or> topic_pattern s = t
            \<or> (\<exists>T. topic_pattern s = T @ ''.*'' \<and> startswith t (T @ ''.''))"
  shows "s \<in> set (matching_handlers b t)"
proof -
  let ?ps = "split_on CHR ''.'' t"
  from s consider (global) "s \<in> set (global_subscriptions b)"
    | (keyed) k ss where "(k, ss) \<in> set (subscriptions b)" "s \<in> set ss"
    by (auto simp: all_subscriptions_iff)
  then show ?thesis
  proof cases
    case global
    then show ?thesis by (simp add: matching_handlers_def Let_def)
  next
    case keyed
    from ok keyed have pat: "topic_pattern s = k" and star: "k \<noteq> ''*''"
      by (auto simp: bus_ok_def list_all_iff)
    from ok keyed(1) have key: "map_of (subscriptions b) k = Some ss"
      by (simp add: bus_ok_def)
    then have at: "s \<in> set (subs_at b k)" using keyed(2) by (simp add: subs_at_def)
    from m pat star consider (exact) "k = t"
      | (wild) T where "k = T @ ''.*''" "startswith t (T @ ''.'')"
      by auto
    then show ?thesis
    proof cases
      case exact
      then have "s \<in> set (exact_matches b t)" using at key by (simp add: exact_matches_def)
      then show ?thesis by (simp add: matching_handlers_def Let_def)
    next
      case wild
      from wild(2) obtain x where t: "t = T @ ''.'' @ x"
        by (auto simp: startswith_def prefix_def)
      obtain i where i: "i < length ?ps - 1" "join ''.'' (take (i + 1) ?ps) = T"
        using wildcard_enumerated [of T x] t by blast
      then have w: "wildcard_at ?ps i = k" using wild(1) by (simp add: wildcard_at_def)
      have ne: "k \<noteq> []" using wild(1) by simp
      have "i \<in> set [0..<length ?ps]" using i(1) by simp
      then have "s \<in> set (wildcard_matches b ?ps)"
        unfolding wildcard_matches_def using at key w ne
        by (auto simp: Let_def intro!: bexI [of _ i])
      then show ?thesis by (simp add: matching_handlers_def Let_def)
    qed
  qed
qed

lemma matched_iff_pattern:
  assumes "bus_ok b" "s \<in> set (all_subscriptions b)"
  shows "s \<in> set (matching_handlers b t)
     \<longleftrightarrow> topic_pattern s = ''*'' \<or> topic_pattern s = t
         \<or> (\<exists>T. topic_pattern s = T @ ''.*'' \<and> startswith t (T @ ''.''))"
  using matching_handlers_sound [OF assms(1)] registered_subscription_matched [OF assms]
  by blast

lemma handler_invoked_in_run:
  assumes "s \<in> set hs"
  shows "\<exists>pre post. hs = pre @ s # post
           \<and> run_world hs e w = run_world post e (world (handler s e (run_world pre e w)))"
proof -
  from assms obtain pre post where "hs = pre @ s # post" by (auto simp: in_set_conv_decomp)
  then show ?thesis by (auto simp: run_world_append)
qed

text \<open>
  C1. On a bus whose table is well formed (the empty bus is, and \<open>subscribe\<close> keeps it
  so), \<open>subscribe\<close> adds the subscription it builds and keeps every earlier one. For every
  subscription \<open>s\<close> registered on the bus, whenever it was registered, and every topic:
  \<open>s\<close> is among the handlers matched for the topic exactly when its pattern is \<open>*\<close>, or is
  the topic, or is \<open>T.*\<close> for a \<open>T\<close> such that the topic starts with \<open>T.\<close>. So a
  subscription to \<open>T.*\<close> is matched for every topic \<open>T.x\<close>, whatever \<open>x\<close> is (one segment or
  several, \<open>T.x\<close> and \<open>T.y.z\<close> alike), and for no topic that does not start with \<open>T.\<close>; a
  subscription to an exact pattern (not \<open>*\<close>, not ending in \<open>.*\<close>) is matched for the equal
  topic only; a subscription to \<open>*\<close> is matched for every topic. Only registered
  subscriptions are matched. Publishing puts the event at the end of the queue when the
  queue is not full, and the dispatch of an event invokes the handler of every matched
  subscription with the event (when what the handlers publish finds room in the queue).
\<close>

theorem topic_pattern_matching:
  assumes "bus_ok b"
  shows
   "bus_ok (snd (subscribe p h sid pr fresh b))
    \<and> set (all_subscriptions (snd (subscribe p h sid pr fresh b)))
        = insert (new_sub p h sid pr fresh) (set (all_subscriptions b))
    \<and> topic_pattern (new_sub p h sid pr fresh) = p
    \<and> handler (new_sub p h sid pr fresh) = h
    \<and> (\<forall>s \<in> set (all_subscriptions b).
          (\<forall>t. s \<in> set (matching_handlers b t)
                 \<longleftrightarrow> topic_pattern s = ''*'' \<or> topic_pattern s = t
                     \<or> (\<exists>T. topic_pattern s = T @ ''.*'' \<and> startswith t (T @ ''.'')))
          \<and> (\<forall>T x. topic_pattern s = T @ ''.*'' \<longrightarrow> s \<in> set (matching_handlers b (T @ ''.'' @ x)))
          \<and> (\<forall>T U. topic_pattern s = T @ ''.*'' \<and> \<not> startswith U (T @ ''.'')
                 \<longrightarrow> s \<notin> set (matching_handlers b U))
          \<and> (\<forall>t. topic_pattern s \<noteq> ''*'' \<and> \<not> endswith (topic_pattern s) ''.*''
                 \<longrightarrow> (s \<in> set (matching_handlers b t)) = (t = topic_pattern s))
          \<and> (\<forall>t. topic_pattern s = ''*'' \<longrightarrow> s \<in> set (matching_handlers b t)))
    \<and> set (matching_handlers b (topic e)) \<subseteq> set (all_subscriptions b)
    \<and> (\<not> queue_full b \<longrightarrow>
         publish e b = Some (b\<lparr>event_queue := event_queue b @ [e], published := published b + 1\<rparr>))
    \<and> (fits b (length (emissions (matching_handlers b (topic e)) e w)) \<longrightarrow>
         (\<exists>x b'. dispatch_event e (b, w)
                   = Some (x, b', run_world (matching_handlers b (topic e)) e w)))
    \<and> (\<forall>s \<in> set (matching_handlers b (topic e)).
          \<exists>pre post. matching_handlers b (topic e) = pre @ s # post
            \<and> run_world (matching_handlers b (topic e)) e w
                = run_world post e (world (handler s e (run_world pre e w))))"
proof (intro conjI ballI allI impI)
  show "bus_ok (snd (subscribe p h sid pr fresh b))" using assms by (rule bus_ok_subscribe)
  show "set (all_subscriptions (snd (subscribe p h sid pr fresh b)))
        = insert (new_sub p h sid pr fresh) (set (all_subscriptions b))"
    by (rule all_subscriptions_subscribe)
  show "topic_pattern (new_sub p h sid pr fresh) = p" "handler (new_sub p h sid pr fresh) = h"
    by (simp_all add: new_sub_def)
  show "set (matching_handlers b (topic e)) \<subseteq> set (all_subscriptions b)"
    by (rule matching_handlers_subset)
  show "publish e b = Some (b\<lparr>event_queue := event_queue b @ [e], published := published b + 1\<rparr>)"
    if "\<not> queue_full b" using that by (simp add: publish_def enqueue_def)
  show "\<exists>x b'. dispatch_event e (b, w)
                 = Some (x, b', run_world (matching_handlers b (topic e)) e w)"
    if "fits b (length (emissions (matching_handlers b (topic e)) e w))"
    using that by (simp add: dispatch_event_eq)
  show "\<exists>pre post. matching_handlers b (topic e) = pre @ s # post
            \<and> run_world (matching_handlers b (topic e)) e w
                = run_world post e (world (handler s e (run_world pre e w)))"
    if "s \<in> set (matching_handlers b (topic e))" for s
    using that by (rule handler_invoked_in_run)
next
  fix s t assume s: "s \<in> set (all_subscriptions b)"
  note iff = matched_iff_pattern [OF assms s]
  show "s \<in> set (matching_handlers b t)
          \<longleftrightarrow> topic_pattern s = ''*'' \<or> topic_pattern s = t
              \<or> (\<exists>T. topic_pattern s = T @ ''.*'' \<and> startswith t (T @ ''.''))"
    by (rule iff)
  show "s \<in> set (matching_handlers b t)" if "topic_pattern s = ''*''"
    using that iff by blast
  show "(s \<in> set (matching_handlers b t)) = (t = topic_pattern s)"
    if "topic_pattern s \<noteq> ''*'' \<and> \<not> endswith (topic_pattern s) ''.*''"
    using that iff [of t] by (auto simp: endswith_def suffix_def)
next
  fix s T x assume s: "s \<in> set (all_subscriptions b)" and p: "topic_pattern s = T @ ''.*''"
  have "startswith (T @ ''.'' @ x) (T @ ''.'')" by (simp add: startswith_def prefix_def)
  then show "s \<in> set (matching_handlers b (T @ ''.'' @ x))"
    using matched_iff_pattern [OF assms s, of "T @ ''.'' @ x"] p by blast
next
  fix s T U
  assume s: "s \<in> set (all_subscriptions b)"
    and p: "topic_pattern s = T @ ''.*'' \<and> \<not> startswith U (T @ ''.'')"
  have "T @ ''.*'' \<noteq> ''*''" by (cases T) auto
  moreover have "T @ ''.*'' \<noteq> U" using p by (auto simp: startswith_def prefix_def)
  ultimately show "s \<notin> set (matching_handlers b U)"
    using matched_iff_pattern [OF assms s, of U] p by auto
qed

lemma routing_bus_matching:
  "matching_handlers routing_bus ''task.created''
     = [new_sub ''task.*'' (log_handler ''wild'') ''wild'' NORMAL [],
        new_sub ''*'' (log_handler ''all'') ''all'' NORMAL []]"
  by (simp add: routing_bus_def subscribe_def new_bus_def matching_handlers_def
        exact_matches_def wildcard_matches_def parent_wildcard_matches_def subs_at_def
        wildcard_at_def new_sub_def endswith_def startswith_def suffix_to_prefix
        py_slice_def py_index_def Let_def atLeast0_lessThan_Suc)

theorem topic_pattern_matching_witness:
  "bus_ok routing_bus
   \<and> new_sub ''task.*'' (log_handler ''wild'') ''wild'' NORMAL [] \<in> set (all_subscriptions routing_bus)
   \<and> new_sub ''task.*'' (log_handler ''wild'') ''wild'' NORMAL []
        \<in> set (matching_handlers routing_bus ''task.sub.deep'')
   \<and> \<not> startswith ''other.topic'' ''task.''
   \<and> new_sub ''task.*'' (log_handler ''wild'') ''wild'' NORMAL []
        \<notin> set (matching_handlers routing_bus ''other.topic'')
   \<and> new_sub ''test.topic'' (log_handler ''exact'') ''exact'' NORMAL []
        \<in> set (all_subscriptions routing_bus)
   \<and> new_sub ''test.topic'' (log_handler ''exact'') ''exact'' NORMAL []
        \<in> set (matching_handlers routing_bus ''test.topic'')
   \<and> new_sub ''test.topic'' (log_handler ''exact'') ''exact'' NORMAL []
        \<notin> set (matching_handlers routing_bus ''test'')
   \<and> new_sub ''*'' (log_handler ''all'') ''all'' NORMAL [] \<in> set (all_subscriptions routing_bus)
   \<and> new_sub ''*'' (log_handler ''all'') ''all'' NORMAL []
        \<in> set (matching_handlers routing_bus ''bar.baz'')
   \<and> \<not> queue_full routing_bus
   \<and> fits routing_bus 0
   \<and> (\<exists>x b'. dispatch_event (ev ''task.created'') (routing_bus, [])
               = Some (x, b', [(''wild'', ''task.created''), (''all'', ''task.created'')]))"
proof -
  let ?wild = "new_sub ''task.*'' (log_handler ''wild'') ''wild'' NORMAL []"
  let ?exact = "new_sub ''test.topic'' (log_handler ''exact'') ''exact'' NORMAL []"
  let ?all = "new_sub ''*'' (log_handler ''all'') ''all'' NORMAL []"
  have ok: "bus_ok routing_bus"
    unfolding routing_bus_def by (intro bus_ok_subscribe bus_ok_new)
  have mem: "?wild \<in> set (all_subscriptions routing_bus)"
      "?exact \<in> set (all_subscriptions routing_bus)"
      "?all \<in> set (all_subscriptions routing_bus)"
    by (simp_all add: routing_bus_def all_subscriptions_subscribe)
  have room: "\<not> queue_full routing_bus" "fits routing_bus 0"
    by (simp_all add: queue_full_def fits_def routing_bus_def subscribe_def new_bus_def Let_def)
  note inst = topic_pattern_matching
                [OF ok, where p = "''x''" and h = "log_handler ''x''" and sid = "''x''"
                   and pr = NORMAL and fresh = "[]" and e = "ev ''task.created''" and w = "[]"]
  note every = inst [THEN conjunct2, THEN conjunct2, THEN conjunct2, THEN conjunct2,
                     THEN conjunct1]
  note delivered = inst [THEN conjunct2, THEN conjunct2, THEN conjunct2, THEN conjunct2,
                         THEN conjunct2, THEN conjunct2, THEN conjunct2, THEN conjunct1]
  note wild = every [THEN bspec, OF mem(1)]
  note exact = every [THEN bspec, OF mem(2)]
  note all = every [THEN bspec, OF mem(3)]
  have w1: "?wild \<in> set (matching_handlers routing_bus ''task.sub.deep'')"
    using wild [THEN conjunct2, THEN conjunct1, rule_format, of "''task''" "''sub.deep''"]
    by simp
  have sib: "\<not> startswith ''other.topic'' ''task.''" by (simp add: startswith_def)
  have w2: "?wild \<notin> set (matching_handlers routing_bus ''other.topic'')"
    using wild [THEN conjunct2, THEN conjunct2, THEN conjunct1, rule_format,
                of "''task''" "''other.topic''"] sib
    by simp
  have pat: "topic_pattern ?exact \<noteq> ''*'' \<and> \<not> endswith (topic_pattern ?exact) ''.*''"
    by (simp add: endswith_def suffix_to_prefix)
  have e1: "?exact \<in> set (matching_handlers routing_bus ''test.topic'')"
    and e2: "?exact \<notin> set (matching_handlers routing_bus ''test'')"
    using exact [THEN conjunct2, THEN conjunct2, THEN conjunct2, THEN conjunct1,
                 rule_format, OF pat]
    by simp_all
  have a1: "?all \<in> set (matching_handlers routing_bus ''bar.baz'')"
    using all [THEN conjunct2, THEN conjunct2, THEN conjunct2, THEN conjunct2, rule_format]
    by simp
  have "\<exists>x b'. dispatch_event (ev ''task.created'') (routing_bus, [])
               = Some (x, b', [(''wild'', ''task.created''), (''all'', ''task.created'')])"
    using delivered room(2)
    by (simp add: ev_def routing_bus_matching new_sub_def log_handler_def Let_def)
  with ok mem w1 sib w2 e1 e2 a1 room show ?thesis by (intro conjI)
qed

section \<open>Slices\<close>

lemma py_slice_last:
  "0 < k \<Longrightarrow> py_slice (Some (- k)) None xs = drop (length xs - nat k) xs"
  by (auto simp: py_slice_def py_index_def Let_def max_def nat_diff_distrib' nat_le_iff)

lemma py_slice_minus_zero: "py_slice (Some (- 0)) None xs = xs"
  by (simp add: py_slice_def py_index_def)

section \<open>The non-blocking publish\<close>

text \<open>
  C9. When the queue is at capacity, \<open>publish_nowait\<close> raises \<open>QueueFull\<close> and the bus is
  exactly as before: the event is not in the queue and \<open>published\<close> has not moved. When
  the queue has room, the call returns, the event is the newest entry of the queue, and
  \<open>published\<close> has grown by exactly one while everything else is as before.
\<close>

theorem publish_nowait_full_or_enqueued:
  "(queue_full b \<longrightarrow> publish_nowait e b = (Inl QueueFull, b))
   \<and> (\<not> queue_full b \<longrightarrow>
        fst (publish_nowait e b) = Inr ()
        \<and> snd (publish_nowait e b)
            = b\<lparr>event_queue := event_queue b @ [e], published := published b + 1\<rparr>)"
  by (simp add: publish_nowait_def enqueue_def)

theorem publish_nowait_full_or_enqueued_witness:
  "queue_full ((new_bus 1 :: unit bus)\<lparr>event_queue := [ev ''a'']\<rparr>)
   \<and> publish_nowait (ev ''b'') ((new_bus 1 :: unit bus)\<lparr>event_queue := [ev ''a'']\<rparr>)
       = (Inl QueueFull, (new_bus 1)\<lparr>event_queue := [ev ''a'']\<rparr>)
   \<and> \<not> queue_full (new_bus 1 :: unit bus)
   \<and> event_queue (snd (publish_nowait (ev ''b'') (new_bus 1 :: unit bus))) = [ev ''b'']
   \<and> published (snd (publish_nowait (ev ''b'') (new_bus 1 :: unit bus))) = 1"
  using publish_nowait_full_or_enqueued
          [of "(new_bus 1 :: unit bus)\<lparr>event_queue := [ev ''a'']\<rparr>" "ev ''b''"]
        publish_nowait_full_or_enqueued [of "new_bus 1 :: unit bus" "ev ''b''"]
  by (simp add: queue_full_def new_bus_def)

section \<open>Recent events\<close>

text \<open>
  C10. For a history of \<open>n\<close> events and a limit of at least 1, \<open>recent_events\<close> returns the
  last \<open>min limit n\<close> events of the history, in the history's order (most recent last);
  for the limit 0 it returns the whole history, not the empty list.
\<close>

theorem recent_events_limit:
  "(1 \<le> limit \<longrightarrow>
      recent_events limit b
        = drop (length (event_history b) - min (nat limit) (length (event_history b)))
            (event_history b)
      \<and> length (recent_events limit b) = min (nat limit) (length (event_history b))
      \<and> suffix (recent_events limit b) (event_history b))
   \<and> recent_events 0 b = event_history b"
proof -
  have zero: "recent_events 0 b = event_history b"
    using py_slice_minus_zero [of "event_history b"] by (simp add: recent_events_def)
  have pos: "recent_events limit b
               = drop (length (event_history b) - min (nat limit) (length (event_history b)))
                   (event_history b)" if "1 \<le> limit"
  proof -
    have "recent_events limit b = drop (length (event_history b) - nat limit) (event_history b)"
      using that py_slice_last [of limit "event_history b"] by (simp add: recent_events_def)
    then show ?thesis by (simp add: min_def)
  qed
  show ?thesis using zero pos by (auto simp: suffix_drop)
qed

theorem recent_events_limit_witness:
  "(1::int) \<le> 2
   \<and> recent_events 2 ((new_bus 0 :: unit bus)\<lparr>event_history := [ev ''a'', ev ''b'', ev ''c'']\<rparr>)
       = [ev ''b'', ev ''c'']
   \<and> recent_events 5 ((new_bus 0 :: unit bus)\<lparr>event_history := [ev ''a'', ev ''b'', ev ''c'']\<rparr>)
       = [ev ''a'', ev ''b'', ev ''c'']
   \<and> recent_events 0 ((new_bus 0 :: unit bus)\<lparr>event_history := [ev ''a'', ev ''b'', ev ''c'']\<rparr>)
       = [ev ''a'', ev ''b'', ev ''c'']"
  using recent_events_limit
          [of 2 "(new_bus 0 :: unit bus)\<lparr>event_history := [ev ''a'', ev ''b'', ev ''c'']\<rparr>"]
        recent_events_limit
          [of 5 "(new_bus 0 :: unit bus)\<lparr>event_history := [ev ''a'', ev ''b'', ev ''c'']\<rparr>"]
  by (simp add: new_bus_def)

section \<open>Dispatch and error isolation\<close>

lemma isolation_bus_matching:
  "matching_handlers isolation_bus ''test''
     = [new_sub ''test'' failing_handler ''bad'' NORMAL [],
        new_sub ''test'' (log_handler ''good'') ''good'' NORMAL []]"
  by (simp add: isolation_bus_def subscribe_def new_bus_def matching_handlers_def
        exact_matches_def wildcard_matches_def parent_wildcard_matches_def subs_at_def
        wildcard_at_def new_sub_def endswith_def suffix_to_prefix)

lemma cancelling_bus_matching:
  "matching_handlers cancelling_bus ''test''
     = [new_sub ''test'' cancelled_handler ''bad'' NORMAL [],
        new_sub ''test'' (log_handler ''good'') ''good'' NORMAL []]"
  by (simp add: cancelling_bus_def subscribe_def new_bus_def matching_handlers_def
        exact_matches_def wildcard_matches_def parent_wildcard_matches_def subs_at_def
        wildcard_at_def new_sub_def endswith_def suffix_to_prefix)

text \<open>
  C2. The dispatch of an event to its matched handlers, however many they are. It
  completes exactly when what the handlers publish finds room in the queue. Then every
  matched handler has been invoked with the event, in the order of the sorted list, each
  on the state the handlers before it left, whatever any of them raised; \<open>errors\<close> has
  grown by the number of handlers that raised an \<^verbatim>\<open>Exception\<close>, and none of these
  exceptions is raised by the dispatch. An exception outside \<^verbatim>\<open>Exception\<close> is not caught:
  the first one a handler raises is raised by the dispatch, it is not counted in \<open>errors\<close>,
  and \<open>dispatched\<close> is not incremented; \<open>dispatched\<close> grows by one exactly when no handler
  raises such an exception.
\<close>

theorem exceptions_isolated_base_exceptions_escape:
  "dispatch_event e (b, w) =
     (if fits b (length (emissions (matching_handlers b (topic e)) e w))
      then Some (first_escaped (matching_handlers b (topic e)) e w,
                 (record_history e b)
                   \<lparr>event_queue := event_queue b @ emissions (matching_handlers b (topic e)) e w,
                    published := published b
                                 + int (length (emissions (matching_handlers b (topic e)) e w)),
                    errors := errors b + count_caught (matching_handlers b (topic e)) e w,
                    dispatched := dispatched b
                      + (if first_escaped (matching_handlers b (topic e)) e w = None then 1 else 0)\<rparr>,
                 run_world (matching_handlers b (topic e)) e w)
      else None)
   \<and> (\<forall>pre s post. matching_handlers b (topic e) = pre @ s # post \<longrightarrow>
         run_world (matching_handlers b (topic e)) e w
           = run_world post e (world (handler s e (run_world pre e w)))
         \<and> count_caught (matching_handlers b (topic e)) e w
             = count_caught pre e w
               + (case fault (handler s e (run_world pre e w)) of
                    None \<Rightarrow> 0
                  | Some x \<Rightarrow> if is_exception x then 1 else 0)
               + count_caught post e (world (handler s e (run_world pre e w))))
   \<and> ((\<forall>s \<in> set (matching_handlers b (topic e)). \<forall>v x.
          fault (handler s e v) = Some x \<longrightarrow> is_exception x)
        \<longrightarrow> first_escaped (matching_handlers b (topic e)) e w = None)"
proof (intro conjI allI impI)
  show "dispatch_event e (b, w) =
     (if fits b (length (emissions (matching_handlers b (topic e)) e w))
      then Some (first_escaped (matching_handlers b (topic e)) e w,
                 (record_history e b)
                   \<lparr>event_queue := event_queue b @ emissions (matching_handlers b (topic e)) e w,
                    published := published b
                                 + int (length (emissions (matching_handlers b (topic e)) e w)),
                    errors := errors b + count_caught (matching_handlers b (topic e)) e w,
                    dispatched := dispatched b
                      + (if first_escaped (matching_handlers b (topic e)) e w = None then 1 else 0)\<rparr>,
                 run_world (matching_handlers b (topic e)) e w)
      else None)"
    by (rule dispatch_event_eq)
next
  fix pre s post
  assume hs: "matching_handlers b (topic e) = pre @ s # post"
  show "run_world (matching_handlers b (topic e)) e w
          = run_world post e (world (handler s e (run_world pre e w)))"
    unfolding hs by (simp add: run_world_append)
  show "count_caught (matching_handlers b (topic e)) e w
             = count_caught pre e w
               + (case fault (handler s e (run_world pre e w)) of
                    None \<Rightarrow> 0
                  | Some x \<Rightarrow> if is_exception x then 1 else 0)
               + count_caught post e (world (handler s e (run_world pre e w)))"
    unfolding hs by (simp add: count_caught_append Let_def)
next
  assume "\<forall>s \<in> set (matching_handlers b (topic e)). \<forall>v x.
          fault (handler s e v) = Some x \<longrightarrow> is_exception x"
  then show "first_escaped (matching_handlers b (topic e)) e w = None"
    by (rule first_escaped_None)
qed

text \<open>
  A handler that raises \<^verbatim>\<open>asyncio.CancelledError\<close>, subscribed before a logging handler:
  the logging handler is invoked, but the exception leaves the dispatch, \<open>errors\<close> stays at
  0 and \<open>dispatched\<close> stays at 0.
\<close>

theorem exceptions_isolated_base_exceptions_escape_counterexample:
  "\<exists>b'. dispatch_event (ev ''test'') (cancelling_bus, [])
           = Some (Some CancelledError, b', [(''good'', ''test'')])
        \<and> errors cancelling_bus = 0 \<and> errors b' = 0
        \<and> dispatched cancelling_bus = 0 \<and> dispatched b' = 0"
proof -
  have zero: "errors cancelling_bus = 0" "dispatched cancelling_bus = 0"
    by (simp_all add: cancelling_bus_def subscribe_def new_bus_def Let_def)
  have unbounded: "fits cancelling_bus n" for n
    by (simp add: fits_def cancelling_bus_def subscribe_def new_bus_def Let_def)
  show ?thesis
    using zero
    by (simp add: dispatch_event_eq unbounded ev_def cancelling_bus_matching new_sub_def
          cancelled_handler_def log_handler_def Let_def)
qed

text \<open>The error isolation test of the repository: one failing handler, one logging handler.\<close>

theorem exceptions_isolated_base_exceptions_escape_witness:
  "fits isolation_bus 0
   \<and> (\<exists>b'. dispatch_event (ev ''test'') (isolation_bus, [])
              = Some (None, b', [(''good'', ''test'')])
            \<and> errors b' = 1 \<and> dispatched b' = 1)"
proof -
  have zero: "errors isolation_bus = 0" "dispatched isolation_bus = 0"
    by (simp_all add: isolation_bus_def subscribe_def new_bus_def Let_def)
  have unbounded: "fits isolation_bus n" for n
    by (simp add: fits_def isolation_bus_def subscribe_def new_bus_def Let_def)
  note inst = exceptions_isolated_base_exceptions_escape
                [of "ev ''test''" isolation_bus "[]", THEN conjunct1]
  have "dispatch_event (ev ''test'') (isolation_bus, [])
          = Some (None,
                  (record_history (ev ''test'') isolation_bus)
                    \<lparr>event_queue := event_queue isolation_bus,
                     published := published isolation_bus, errors := 1, dispatched := 1\<rparr>,
                  [(''good'', ''test'')])"
    unfolding inst using zero
    by (simp add: unbounded ev_def isolation_bus_matching new_sub_def
          failing_handler_def log_handler_def Let_def)
  with unbounded [of 0] show ?thesis by simp
qed

section \<open>Stopping the bus while the dispatch task is alive\<close>

lemmas runtime_eval =
  stop_step_def loop_step_def stop_call_step_def loop_call_step_def finish_stop_def
  cancel_dispatch_task_def loop_again_def begin_dispatch_def count_dispatched_def
  record_history_def bus_max_history_def safe_call_def matching_handlers_def
  exact_matches_def wildcard_matches_def parent_wildcard_matches_def subs_at_def
  wildcard_at_def endswith_def startswith_def suffix_to_prefix publish_def queue_full_def
  enqueue_def Let_def

lemma stopping_runtime_state:
  "stopping_runtime =
     Some \<lparr>rt_bus =
             \<lparr>subscriptions = [(''t'', [new_sub ''t'' id_logger ''h'' NORMAL []])],
              global_subscriptions = [],
              event_queue = [event_with_id ''t'' ''e1'', event_with_id ''t'' ''e2''],
              max_queue_size = 10000, running = True, dispatch_task = True,
              event_history = [], published = 2, dispatched = 0, errors = 0\<rparr>,
           rt_world = [], stop_task = SCalled, stop_calls = [], stop_exc = None,
           loop_task = LWaiting, loop_calls = [], loop_exc = None\<rparr>"
  by (simp add: stopping_runtime_def start_def new_runtime_def subscribe_def new_bus_def
        rt_publish_def call_stop_def runtime_eval)

text \<open>
  C7. The bus of \<open>stopping_runtime\<close>: started, its dispatch task waiting for the queue,
  \<open>e1\<close> and \<open>e2\<close> queued, \<^verbatim>\<open>stop()\<close> called. \<^verbatim>\<open>stop()\<close> takes \<open>e1\<close> and suspends in the
  \<^verbatim>\<open>gather\<close> of its handler call; the dispatch task, still alive, takes \<open>e2\<close> from the
  queue. When the handler of \<open>e1\<close> has run and the dispatch task has begun the dispatch of
  \<open>e2\<close>, \<^verbatim>\<open>stop()\<close> finds the queue empty and cancels the dispatch task, and with it the
  handler call for \<open>e2\<close> that has not run: \<^verbatim>\<open>stop()\<close> returns, the queue is empty, \<open>e2\<close> is
  in the history, its handler was never invoked, and one dispatch was counted for two
  events. When both handler calls run before \<^verbatim>\<open>stop()\<close> is resumed, both events are
  delivered, and the dispatch of \<open>e2\<close> is still cancelled before it is counted. Both
  orders are orders of the asyncio event loop: CPython 3.11 resumes the dispatch task
  after the handler call of \<open>e1\<close>, CPython 3.12 before it.
\<close>

theorem stop_drops_event_taken_by_dispatch_task:
  "(\<exists>rt. Option.bind stopping_runtime (run [Stop, StopCall, Loop, Stop]) = Some rt
         \<and> stop_task rt = SDone \<and> loop_task rt = LDone
         \<and> stop_calls rt = [] \<and> loop_calls rt = []
         \<and> event_queue (rt_bus rt) = []
         \<and> map event_id (event_history (rt_bus rt)) = [''e1'', ''e2'']
         \<and> rt_world rt = [''e1'']
         \<and> dispatched (rt_bus rt) = 1)
   \<and> (\<exists>rt. Option.bind stopping_runtime (run [Stop, Loop, StopCall, LoopCall, Stop]) = Some rt
         \<and> stop_task rt = SDone \<and> loop_task rt = LDone
         \<and> stop_calls rt = [] \<and> loop_calls rt = []
         \<and> event_queue (rt_bus rt) = []
         \<and> map event_id (event_history (rt_bus rt)) = [''e1'', ''e2'']
         \<and> rt_world rt = [''e1'', ''e2'']
         \<and> dispatched (rt_bus rt) = 1)"
  by (simp add: stopping_runtime_state runtime_eval new_sub_def id_logger_def
        event_with_id_def ev_def)

text \<open>
  When the dispatch task is not resumed while \<^verbatim>\<open>stop()\<close> drains, both events are
  delivered and counted.
\<close>

lemma stop_alone_drains:
  "\<exists>rt. Option.bind stopping_runtime (run [Stop, StopCall, Stop, StopCall, Stop]) = Some rt
        \<and> stop_task rt = SDone \<and> loop_task rt = LDone
        \<and> event_queue (rt_bus rt) = []
        \<and> rt_world rt = [''e1'', ''e2'']
        \<and> dispatched (rt_bus rt) = 2"
  by (simp add: stopping_runtime_state runtime_eval new_sub_def id_logger_def
        event_with_id_def ev_def)

section \<open>Faults while an agent handles an event\<close>


lemmas agent_eval =
  ready_def initialize_def new_agent_def worker_config_def new_bus_def subscribe_def
  new_sub_def subs_at_def Let_def on_event_def dict_get_def think_def trim_history_def
  think_tools_def think_kwargs_def content_event_def ev_def




section \<open>Trimming the message history\<close>

lemma py_slice_from: "0 \<le> k \<Longrightarrow> py_slice (Some k) None xs = drop (nat k) xs"
  by (simp add: py_slice_def py_index_def min_def Let_def)

text \<open>
  Where the cap is larger than the number of system messages and these stand at the
  front of the history, trimming keeps them and the most recent other messages, in
  order, and the trimmed history has exactly \<open>max_history\<close> entries.
\<close>

lemma trim_history_keeps_recent:
  assumes cap: "int (length sys) < cap" "cap < int (length (sys @ rest))"
    and sys: "\<forall>m \<in> set sys. role m = SYSTEM" and rest: "\<forall>m \<in> set rest. role m \<noteq> SYSTEM"
  shows "trim_history cap (sys @ rest)
           = sys @ drop (length rest - nat (cap - int (length sys))) rest"
    and "int (length (trim_history cap (sys @ rest))) = cap"
proof -
  have f: "filter (\<lambda>m. role m = SYSTEM) (sys @ rest) = sys"
    using sys rest by (simp add: filter_id_conv filter_empty_conv)
  let ?k = "cap - int (length sys)"
  have k: "0 < ?k" "nat ?k \<le> length rest" using cap by auto
  have "py_slice (Some (- ?k)) None (sys @ rest) = drop (length (sys @ rest) - nat ?k) (sys @ rest)"
    using k(1) by (rule py_slice_last)
  also have "\<dots> = drop (length rest - nat ?k) rest" using k(2) by simp
  finally show t: "trim_history cap (sys @ rest) = sys @ drop (length rest - nat ?k) rest"
    using cap(2) f by (simp add: trim_history_def Let_def)
  show "int (length (trim_history cap (sys @ rest))) = cap"
    unfolding t using k cap by simp
qed

text \<open>
  The case of the history trimming test: a cap of 5, one system prompt, ten calls of
  \<open>think\<close>. The history is then the system prompt and the five most recent messages.
\<close>

lemma think_ten_times_cap_five:
  "message_history
     (foldl (\<lambda>a u. snd (think u a)) (fst (ready mock_provider ''System prompt'' 5))
        [PyStr ''Message 0'', PyStr ''Message 1'', PyStr ''Message 2'', PyStr ''Message 3'',
         PyStr ''Message 4'', PyStr ''Message 5'', PyStr ''Message 6'', PyStr ''Message 7'',
         PyStr ''Message 8'', PyStr ''Message 9''])
   = [\<lparr>role = SYSTEM, content = PyStr ''System prompt''\<rparr>,
      \<lparr>role = ASSISTANT, content = PyInt 8\<rparr>, \<lparr>role = USER, content = PyStr ''Message 8''\<rparr>,
      \<lparr>role = ASSISTANT, content = PyInt 9\<rparr>, \<lparr>role = USER, content = PyStr ''Message 9''\<rparr>,
      \<lparr>role = ASSISTANT, content = PyInt 10\<rparr>]"
  by (simp add: agent_eval mock_provider_def py_slice_def py_index_def)

text \<open>
  C6 (the code at the failing input). With \<open>max_history = 1\<close> and a system prompt, the
  first \<open>think\<close> finds a history of two entries, longer than the cap, and trims it: the
  slice is \<^verbatim>\<open>history[-0:]\<close>, the whole history, so the trimmed history is the system prompt
  followed by the whole history. It holds the system prompt twice and is longer than
  before the trimming; the provider is called with it, and its answer is appended.
\<close>

theorem think_cap_one_duplicates_system_prompt:
  "trim_history 1 [\<lparr>role = SYSTEM, content = PyStr ''S''\<rparr>, \<lparr>role = USER, content = PyStr ''hi''\<rparr>]
     = [\<lparr>role = SYSTEM, content = PyStr ''S''\<rparr>, \<lparr>role = SYSTEM, content = PyStr ''S''\<rparr>,
        \<lparr>role = USER, content = PyStr ''hi''\<rparr>]
   \<and> message_history (snd (think (PyStr ''hi'') (fst (ready mock_provider ''S'' 1))))
     = [\<lparr>role = SYSTEM, content = PyStr ''S''\<rparr>, \<lparr>role = SYSTEM, content = PyStr ''S''\<rparr>,
        \<lparr>role = USER, content = PyStr ''hi''\<rparr>, \<lparr>role = ASSISTANT, content = PyInt 1\<rparr>]"
  by (simp add: agent_eval mock_provider_def py_slice_def py_index_def)

section \<open>Scheduling one task\<close>

lemma run_task_Some:
  assumes "map_of (tasks s) k = Some t" "\<not> queue_full (event_bus s)"
  shows "run_task k s
           = Some (s\<lparr>tasks := AList.update k (t\<lparr>status := RUNNING, started_at := Some (clock s)\<rparr>)
                               (tasks s),
                     event_bus :=
                       enqueue (task_event (t\<lparr>status := RUNNING, started_at := Some (clock s)\<rparr>)
                                  (uuids s (issued s)) (clock s))
                         (event_bus s),
                     issued := Suc (issued s)\<rparr>)"
  using assms by (simp add: run_task_def set_task_def publish_def Let_def)

lemma run_task_None:
  "map_of (tasks s) k = Some t \<Longrightarrow> queue_full (event_bus s) \<Longrightarrow> run_task k s = None"
  by (simp add: run_task_def set_task_def publish_def Let_def)

lemma schedule_task_running:
  assumes "map_of (tasks s) k = Some t" "status t \<noteq> CANCELLED"
  shows "schedule_task k s = (if queue_full (event_bus s) then None else Some (scheduled_state k t s))"
proof (cases "0 < delay_seconds t")
  case True
  let ?s1 = "sleep (delay_seconds t) (begin_delay k t s)"
  have t1: "map_of (tasks ?s1) k = Some (t\<lparr>status := SCHEDULED\<rparr>)"
    and b1: "event_bus ?s1 = event_bus s"
    by (simp_all add: sleep_def begin_delay_def set_task_def update_conv')
  show ?thesis
  proof (cases "queue_full (event_bus s)")
    case True
    then show ?thesis using assms \<open>0 < delay_seconds t\<close> run_task_None [OF t1] b1
      by (simp add: schedule_task_def)
  next
    case False
    then show ?thesis using assms True run_task_Some [OF t1] b1
      by (simp add: schedule_task_def scheduled_state_def sleep_def begin_delay_def set_task_def
            Let_def)
  qed
next
  case False
  then show ?thesis
    using assms run_task_None [OF assms(1)] run_task_Some [OF assms(1)]
    by (cases "queue_full (event_bus s)")
       (simp_all add: schedule_task_def scheduled_state_def Let_def)
qed


lemma scheduled_state_simps [simp]:
  "map_of (tasks (scheduled_state k t s)) k'
     = (if k' = k
        then Some (t\<lparr>status := RUNNING,
                     started_at := Some (clock s + (if 0 < delay_seconds t then delay_seconds t else 0))\<rparr>)
        else map_of (tasks s) k')"
  "clock (scheduled_state k t s) = clock s + (if 0 < delay_seconds t then delay_seconds t else 0)"
  "max_queue_size (event_bus (scheduled_state k t s)) = max_queue_size (event_bus s)"
  "event_queue (event_bus (scheduled_state k t s))
     = event_queue (event_bus s)
       @ [task_event (t\<lparr>status := RUNNING,
                        started_at := Some (clock s + (if 0 < delay_seconds t then delay_seconds t else 0))\<rparr>)
            (uuids s (issued s)) (clock s + (if 0 < delay_seconds t then delay_seconds t else 0))]"
  by (simp_all add: scheduled_state_def Let_def update_conv' enqueue_def)

section \<open>The pass over the dependents\<close>

text \<open>
  One induction over the pass gives what the theorems below use: a task that is not \<open>PENDING\<close> is
  left as it is; the events published are those of tasks that were \<open>PENDING\<close>, each
  carrying its task's id in the metadata; the clock does not go back; and a task the
  pass changed was started at or after the time the pass began.
\<close>

lemma check_dependents_loop_Some:
  assumes "check_dependents_loop cid ks s = Some s'"
  shows "(\<forall>k t. map_of (tasks s) k = Some t \<and> status t \<noteq> PENDING \<longrightarrow> map_of (tasks s') k = Some t)
     \<and> clock s \<le> clock s'
     \<and> (\<forall>k t'. map_of (tasks s') k = Some t' \<and> map_of (tasks s) k \<noteq> Some t' \<longrightarrow>
           (\<exists>x. started_at t' = Some x \<and> clock s \<le> x))
     \<and> (\<exists>new. event_queue (event_bus s') = event_queue (event_bus s) @ new
           \<and> (\<forall>e \<in> set new. \<exists>k t. map_of (tasks s) k = Some t \<and> status t = PENDING
                                \<and> metadata e = [(''task_id'', PyStr (task_id t))]))"
  using assms
proof (induction ks arbitrary: s)
  case Nil
  then show ?case by simp
next
  case (Cons k ks)
  show ?case
  proof (cases "\<exists>t. map_of (tasks s) k = Some t \<and> status t = PENDING \<and> cid \<in> set (depends_on t)
                  \<and> can_schedule s t")
    case False
    then have "check_dependents_loop cid ks s = Some s'"
      using Cons.prems by (auto split: option.splits if_splits)
    from Cons.IH [OF this] show ?thesis .
  next
    case True
    then obtain t where t: "map_of (tasks s) k = Some t" "status t = PENDING" by blast
    let ?s1 = "scheduled_state k t s"
    from Cons.prems True t schedule_task_running [of s k t]
    have rest: "check_dependents_loop cid ks ?s1 = Some s'" and room: "\<not> queue_full (event_bus s)"
      by (auto split: option.splits if_splits)
    note IH = Cons.IH [OF rest]
    have keep: "\<forall>k' u. map_of (tasks s) k' = Some u \<and> status u \<noteq> PENDING
                  \<longrightarrow> map_of (tasks s') k' = Some u"
    proof (intro allI impI)
      fix k' u assume u: "map_of (tasks s) k' = Some u \<and> status u \<noteq> PENDING"
      with t have "k' \<noteq> k" by auto
      with u have "map_of (tasks ?s1) k' = Some u \<and> status u \<noteq> PENDING" by simp
      with IH show "map_of (tasks s') k' = Some u" by blast
    qed
    have clk: "clock s \<le> clock ?s1" by simp
    with IH have clk': "clock s \<le> clock s'" by linarith
    have started: "\<forall>k' u. map_of (tasks s') k' = Some u \<and> map_of (tasks s) k' \<noteq> Some u \<longrightarrow>
           (\<exists>x. started_at u = Some x \<and> clock s \<le> x)"
    proof (intro allI impI)
      fix k' u assume u: "map_of (tasks s') k' = Some u \<and> map_of (tasks s) k' \<noteq> Some u"
      show "\<exists>x. started_at u = Some x \<and> clock s \<le> x"
      proof (cases "map_of (tasks ?s1) k' = Some u")
        case False
        with u IH obtain x where "started_at u = Some x" "clock ?s1 \<le> x" by blast
        with clk show ?thesis by auto
      next
        case True
        with u have "k' = k" by (auto split: if_splits)
        with True show ?thesis by auto
      qed
    qed
    from IH obtain new where
      new: "event_queue (event_bus s') = event_queue (event_bus ?s1) @ new"
      and src: "\<forall>e \<in> set new. \<exists>k' u. map_of (tasks ?s1) k' = Some u \<and> status u = PENDING
                                \<and> metadata e = [(''task_id'', PyStr (task_id u))]"
      by blast
    let ?e = "task_event (t\<lparr>status := RUNNING,
                        started_at := Some (clock s + (if 0 < delay_seconds t then delay_seconds t else 0))\<rparr>)
            (uuids s (issued s)) (clock s + (if 0 < delay_seconds t then delay_seconds t else 0))"
    have q: "event_queue (event_bus s') = event_queue (event_bus s) @ (?e # new)"
      using new by simp
    have "\<forall>e \<in> set (?e # new). \<exists>k' u. map_of (tasks s) k' = Some u \<and> status u = PENDING
                                \<and> metadata e = [(''task_id'', PyStr (task_id u))]"
    proof
      fix e assume "e \<in> set (?e # new)"
      then consider "e = ?e" | "e \<in> set new" by auto
      then show "\<exists>k' u. map_of (tasks s) k' = Some u \<and> status u = PENDING
                                \<and> metadata e = [(''task_id'', PyStr (task_id u))]"
      proof cases
        case 1
        then show ?thesis using t by (auto simp: task_event_def)
      next
        case 2
        with src obtain k' u where u: "map_of (tasks ?s1) k' = Some u" "status u = PENDING"
          "metadata e = [(''task_id'', PyStr (task_id u))]" by blast
        then have "k' \<noteq> k" by (auto split: if_splits)
        with u show ?thesis by auto
      qed
    qed
    with q keep clk' started show ?thesis by blast
  qed
qed


section \<open>Terminal task statuses\<close>


lemmas sched_eval =
  sched0_def new_scheduler_def mk_task_def completed_event_def failed_event_def submit_def
  set_task_def can_schedule_def schedule_task_def run_task_def sleep_def begin_delay_def
  task_event_def task_event_payload_def publish_def queue_full_def enqueue_def
  on_task_completed_def on_task_failed_def named_task_def check_dependents_def cancel_def
  get_status_def dict_get_def subscribe_def new_sub_def subs_at_def new_bus_def ev_def Let_def




section \<open>Delayed tasks\<close>

text \<open>
  C5 (amended). For a task that is scheduled with a positive delay (not cancelled, room
  in the queue): while the delay runs the task is \<open>SCHEDULED\<close> and nothing has been
  published; the delay is awaited inside the scheduling call, so when the call returns
  the clock has advanced by the delay, the task is \<open>RUNNING\<close>, \<open>started_at\<close> is the time
  after the delay, and exactly one event, on the task's target topic, has been appended
  to the queue. The caller waits with it: a pass over the dependents goes on to the later
  tasks only from the state after the delay, so every other task the pass activates is
  started at or after the end of the delay; and \<open>submit\<close> of the task returns only in
  that state.
\<close>

theorem delay_is_awaited_in_line:
  assumes t: "map_of (tasks s) k = Some t" "status t \<noteq> CANCELLED"
    and d: "0 < delay_seconds t" and room: "\<not> queue_full (event_bus s)"
  shows "map_of (tasks (begin_delay k t s)) k = Some (t\<lparr>status := SCHEDULED\<rparr>)
     \<and> event_bus (begin_delay k t s) = event_bus s
     \<and> (\<exists>s1. schedule_task k s = Some s1
           \<and> clock s1 = clock s + delay_seconds t
           \<and> map_of (tasks s1) k
               = Some (t\<lparr>status := RUNNING, started_at := Some (clock s + delay_seconds t)\<rparr>)
           \<and> event_queue (event_bus s1)
               = event_queue (event_bus s)
                 @ [task_event (t\<lparr>status := RUNNING,
                                  started_at := Some (clock s + delay_seconds t)\<rparr>)
                      (uuids s (issued s)) (clock s + delay_seconds t)]
           \<and> (status t = PENDING \<and> cid \<in> set (depends_on t) \<and> can_schedule s t \<longrightarrow>
                 check_dependents_loop cid (k # ks) s = check_dependents_loop cid ks s1
                 \<and> (\<forall>s' k2 t2. check_dependents_loop cid (k # ks) s = Some s'
                        \<and> k2 \<noteq> k \<and> map_of (tasks s') k2 = Some t2
                        \<and> map_of (tasks s) k2 \<noteq> Some t2 \<longrightarrow>
                        (\<exists>x. started_at t2 = Some x \<and> clock s + delay_seconds t \<le> x)))
           \<and> (task_id t = k \<and> can_schedule s t \<longrightarrow> submit t s = Some (k, s1)))"
proof (intro conjI)
  show "map_of (tasks (begin_delay k t s)) k = Some (t\<lparr>status := SCHEDULED\<rparr>)"
    and "event_bus (begin_delay k t s) = event_bus s"
    by (simp_all add: begin_delay_def set_task_def update_conv')
  let ?s1 = "scheduled_state k t s"
  have sch: "schedule_task k s = Some ?s1" using t room by (simp add: schedule_task_running)
  have loop: "check_dependents_loop cid (k # ks) s = check_dependents_loop cid ks ?s1"
    if "status t = PENDING \<and> cid \<in> set (depends_on t) \<and> can_schedule s t"
    using that t sch by simp
  have later: "\<exists>x. started_at t2 = Some x \<and> clock s + delay_seconds t \<le> x"
    if e: "status t = PENDING \<and> cid \<in> set (depends_on t) \<and> can_schedule s t"
      and r: "check_dependents_loop cid (k # ks) s = Some s'"
      and k2: "k2 \<noteq> k" "map_of (tasks s') k2 = Some t2" "map_of (tasks s) k2 \<noteq> Some t2"
    for s' k2 t2
  proof -
    from loop [OF e] r have "check_dependents_loop cid ks ?s1 = Some s'" by simp
    from check_dependents_loop_Some [OF this] k2 d show ?thesis by (auto split: if_splits)
  qed
  have sub: "submit t s = Some (k, ?s1)" if "task_id t = k \<and> can_schedule s t"
  proof -
    have "AList.update k t (tasks s) = tasks s" using t(1) by (rule update_triv)
    then have "set_task (task_id t) t s = s" using that by (simp add: set_task_def)
    then show ?thesis using that sch by (simp add: submit_def)
  qed
  show "\<exists>s1. schedule_task k s = Some s1
           \<and> clock s1 = clock s + delay_seconds t
           \<and> map_of (tasks s1) k
               = Some (t\<lparr>status := RUNNING, started_at := Some (clock s + delay_seconds t)\<rparr>)
           \<and> event_queue (event_bus s1)
               = event_queue (event_bus s)
                 @ [task_event (t\<lparr>status := RUNNING,
                                  started_at := Some (clock s + delay_seconds t)\<rparr>)
                      (uuids s (issued s)) (clock s + delay_seconds t)]
           \<and> (status t = PENDING \<and> cid \<in> set (depends_on t) \<and> can_schedule s t \<longrightarrow>
                 check_dependents_loop cid (k # ks) s = check_dependents_loop cid ks s1
                 \<and> (\<forall>s' k2 t2. check_dependents_loop cid (k # ks) s = Some s'
                        \<and> k2 \<noteq> k \<and> map_of (tasks s') k2 = Some t2
                        \<and> map_of (tasks s) k2 \<noteq> Some t2 \<longrightarrow>
                        (\<exists>x. started_at t2 = Some x \<and> clock s + delay_seconds t \<le> x)))
           \<and> (task_id t = k \<and> can_schedule s t \<longrightarrow> submit t s = Some (k, s1))"
    using sch d loop later sub by (intro exI [of _ ?s1]) (simp, blast)
qed

theorem delay_is_awaited_in_line_counterexample:
  "(case chain_run of
      None \<Rightarrow> None
    | Some s \<Rightarrow>
        map_option
          (\<lambda>r. (clock s, map_option delay_seconds (map_of (tasks s) ''C''),
                 get_status ''C'' s,
                 map_option started_at (map_of (tasks (snd r)) ''B''),
                 map_option started_at (map_of (tasks (snd r)) ''C'')))
          (on_task_completed (completed_event ''A'') s))
   = Some (0, Some 0, Some PENDING, Some (Some 5), Some (Some 5))"
  by (simp add: chain_run_def sched_eval)

lemma waiting_state_pass:
  "map_option (\<lambda>s. map_option started_at (map_of (tasks s) ''C''))
     (check_dependents_loop ''A'' [''B'', ''C''] waiting_state)
   = Some (Some (Some 5))"
  by (simp add: waiting_state_def sched_eval)

theorem delay_is_awaited_in_line_witness:
  "map_of (tasks waiting_state) ''B'' = Some (mk_task ''B'' [''A''] 5)
   \<and> status (mk_task ''B'' [''A''] 5) = PENDING
   \<and> 0 < delay_seconds (mk_task ''B'' [''A''] 5)
   \<and> \<not> queue_full (event_bus waiting_state)
   \<and> ''A'' \<in> set (depends_on (mk_task ''B'' [''A''] 5))
   \<and> can_schedule waiting_state (mk_task ''B'' [''A''] 5)
   \<and> get_status ''B'' (begin_delay ''B'' (mk_task ''B'' [''A''] 5) waiting_state) = Some SCHEDULED
   \<and> event_queue (event_bus (begin_delay ''B'' (mk_task ''B'' [''A''] 5) waiting_state)) = []
   \<and> (\<exists>s1. schedule_task ''B'' waiting_state = Some s1
          \<and> clock s1 = 5
          \<and> map_option (\<lambda>u. (status u, started_at u)) (map_of (tasks s1) ''B'')
              = Some (RUNNING, Some 5)
          \<and> map topic (event_queue (event_bus s1)) = [''task.created'']
          \<and> check_dependents_loop ''A'' [''B'', ''C''] waiting_state
              = check_dependents_loop ''A'' [''C''] s1
          \<and> submit (mk_task ''B'' [''A''] 5) waiting_state = Some (''B'', s1))
   \<and> (\<exists>s' t2 x. check_dependents_loop ''A'' [''B'', ''C''] waiting_state = Some s'
          \<and> map_of (tasks s') ''C'' = Some t2 \<and> started_at t2 = Some x \<and> 5 \<le> x)"
proof -
  let ?B = "mk_task ''B'' [''A''] 5"
  have h: "map_of (tasks waiting_state) ''B'' = Some ?B" "status ?B \<noteq> CANCELLED"
      "0 < delay_seconds ?B" "\<not> queue_full (event_bus waiting_state)"
    and e: "status ?B = PENDING" "''A'' \<in> set (depends_on ?B)" "can_schedule waiting_state ?B"
      "task_id ?B = ''B''"
    and c0: "clock waiting_state = 0" "event_queue (event_bus waiting_state) = []"
      "map_of (tasks waiting_state) ''C'' = Some (mk_task ''C'' [''A''] 0)"
    by (simp_all add: waiting_state_def sched_eval)
  note inst = delay_is_awaited_in_line [OF h, of "''A''" "[''C'']"]
  from inst have during:
    "get_status ''B'' (begin_delay ''B'' ?B waiting_state) = Some SCHEDULED"
    "event_queue (event_bus (begin_delay ''B'' ?B waiting_state)) = []"
    by (simp_all add: get_status_def c0)
  from inst obtain s1 where s1: "schedule_task ''B'' waiting_state = Some s1"
    "clock s1 = clock waiting_state + delay_seconds ?B"
    "map_of (tasks s1) ''B''
       = Some (?B\<lparr>status := RUNNING,
                  started_at := Some (clock waiting_state + delay_seconds ?B)\<rparr>)"
    "event_queue (event_bus s1)
       = event_queue (event_bus waiting_state)
         @ [task_event (?B\<lparr>status := RUNNING,
                          started_at := Some (clock waiting_state + delay_seconds ?B)\<rparr>)
              (uuids waiting_state (issued waiting_state))
              (clock waiting_state + delay_seconds ?B)]"
    and pass: "status ?B = PENDING \<and> ''A'' \<in> set (depends_on ?B) \<and> can_schedule waiting_state ?B \<longrightarrow>
        check_dependents_loop ''A'' [''B'', ''C''] waiting_state
          = check_dependents_loop ''A'' [''C''] s1
        \<and> (\<forall>s' k2 t2. check_dependents_loop ''A'' [''B'', ''C''] waiting_state = Some s'
               \<and> k2 \<noteq> ''B'' \<and> map_of (tasks s') k2 = Some t2
               \<and> map_of (tasks waiting_state) k2 \<noteq> Some t2 \<longrightarrow>
               (\<exists>x. started_at t2 = Some x
                    \<and> clock waiting_state + delay_seconds ?B \<le> x))"
    and sub: "task_id ?B = ''B'' \<and> can_schedule waiting_state ?B \<longrightarrow>
        submit ?B waiting_state = Some (''B'', s1)"
    by blast
  have first: "\<exists>s1. schedule_task ''B'' waiting_state = Some s1
          \<and> clock s1 = 5
          \<and> map_option (\<lambda>u. (status u, started_at u)) (map_of (tasks s1) ''B'')
              = Some (RUNNING, Some 5)
          \<and> map topic (event_queue (event_bus s1)) = [''task.created'']
          \<and> check_dependents_loop ''A'' [''B'', ''C''] waiting_state
              = check_dependents_loop ''A'' [''C''] s1
          \<and> submit ?B waiting_state = Some (''B'', s1)"
    using s1 pass sub e c0
    by (intro exI [of _ s1]) (simp add: mk_task_def task_event_def)
  from waiting_state_pass obtain s' t2 where
    s': "check_dependents_loop ''A'' [''B'', ''C''] waiting_state = Some s'"
    "map_of (tasks s') ''C'' = Some t2" "started_at t2 = Some 5"
    by (cases "check_dependents_loop ''A'' [''B'', ''C''] waiting_state") auto
  have changed: "map_of (tasks waiting_state) ''C'' \<noteq> Some t2"
    using s'(3) c0 by (auto simp: mk_task_def)
  have pre: "status ?B = PENDING \<and> ''A'' \<in> set (depends_on ?B) \<and> can_schedule waiting_state ?B"
    using e(1,2,3) by (intro conjI)
  note later = pass [rule_format, OF pre, THEN conjunct2, rule_format, of s' "''C''" t2]
  have "\<exists>x. started_at t2 = Some x \<and> clock waiting_state + delay_seconds ?B \<le> x"
    by (rule later) (use s' changed in simp)
  then obtain x where x: "started_at t2 = Some x" "5 \<le> x"
    using c0 by (auto simp: mk_task_def)
  have last: "\<exists>s' t2 x. check_dependents_loop ''A'' [''B'', ''C''] waiting_state = Some s'
          \<and> map_of (tasks s') ''C'' = Some t2 \<and> started_at t2 = Some x \<and> 5 \<le> x"
    using s'(1,2) x by blast
  from h(1) e(1) h(3,4) e(2,3) during first last show ?thesis by (intro conjI)
qed

section \<open>Environment variable placeholders\<close>

lemma py_slice_inner: "py_slice (Some 2) (Some (- 1)) (a # b # xs @ [c]) = xs"
  by (simp add: py_slice_def py_index_def)

lemma cps_literals: "cps ''${'' = [36, 123]" "cps ''}'' = [125]"
  by (simp_all add: cps_def)

lemma placeholder_form:
  "startswith s (cps ''${'') \<and> endswith s (cps ''}'')
     \<longleftrightarrow> (\<exists>var. s = cps ''${'' @ var @ cps ''}'')"
proof
  assume a: "startswith s (cps ''${'') \<and> endswith s (cps ''}'')"
  then obtain r where r: "s = [36, 123] @ r"
    by (auto simp: startswith_def prefix_def cps_literals)
  from a obtain q where q: "s = q @ [125]"
    by (auto simp: endswith_def suffix_def cps_literals)
  have "r \<noteq> []" using r q by auto
  then have "r = butlast r @ [last r]" by simp
  moreover have "last r = 125" using r q \<open>r \<noteq> []\<close> by (metis last_appendR last_snoc)
  ultimately have "s = cps ''${'' @ butlast r @ cps ''}''" using r by (simp add: cps_literals)
  then show "\<exists>var. s = cps ''${'' @ var @ cps ''}''" ..
next
  assume "\<exists>var. s = cps ''${'' @ var @ cps ''}''"
  then show "startswith s (cps ''${'') \<and> endswith s (cps ''}'')"
    by (auto simp: startswith_def endswith_def suffix_def)
qed

lemma resolve_placeholder:
  "resolve_env_vars env (YStr (cps ''${'' @ var @ cps ''}''))
     = (if env_encodes env var
        then Inr (YStr (case env_vars env var of None \<Rightarrow> [] | Some x \<Rightarrow> x),
                  if env_vars env var = None \<or> env_vars env var = Some []
                  then [cps ''Environment variable not set: '' @ var] else [])
        else Inl (UnicodeEncodeError var))"
proof -
  have form: "startswith (cps ''${'' @ var @ cps ''}'') (cps ''${'')
              \<and> endswith (cps ''${'' @ var @ cps ''}'') (cps ''}'')"
    using placeholder_form by blast
  have sl: "py_slice (Some 2) (Some (- 1)) (cps ''${'' @ var @ cps ''}'') = var"
    using py_slice_inner [of 36 123 var 125] by (simp add: cps_literals)
  show ?thesis
    unfolding resolve_env_vars_def yval.case if_P [OF form] Let_def sl
    by (auto simp: environ_get_def split: option.splits)
qed

lemma resolve_other:
  "\<not> (startswith s (cps ''${'') \<and> endswith s (cps ''}'')) \<Longrightarrow>
     resolve_env_vars env (YStr s) = Inr (YStr s, [])"
  "(\<forall>x. v \<noteq> YStr x) \<Longrightarrow> resolve_env_vars env v = Inr (v, [])"
  by (cases v; auto simp: resolve_env_vars_def)+

lemma resolve_fails_iff:
  "(\<exists>err. resolve_env_vars env v = Inl err)
     \<longleftrightarrow> (\<exists>var. v = YStr (cps ''${'' @ var @ cps ''}'') \<and> \<not> env_encodes env var)"
proof
  assume "\<exists>err. resolve_env_vars env v = Inl err"
  then obtain err where err: "resolve_env_vars env v = Inl err" ..
  then obtain s where s: "v = YStr s" using resolve_other(2) [of v env] by fastforce
  with err have "startswith s (cps ''${'') \<and> endswith s (cps ''}'')"
    using resolve_other(1) [of s env] by fastforce
  then obtain var where var: "s = cps ''${'' @ var @ cps ''}''"
    using placeholder_form by blast
  with err s have "\<not> env_encodes env var" by (auto simp: resolve_placeholder split: if_splits)
  with s var show "\<exists>var. v = YStr (cps ''${'' @ var @ cps ''}'') \<and> \<not> env_encodes env var"
    by blast
next
  assume "\<exists>var. v = YStr (cps ''${'' @ var @ cps ''}'') \<and> \<not> env_encodes env var"
  then show "\<exists>err. resolve_env_vars env v = Inl err" by (auto simp: resolve_placeholder)
qed

text \<open>
  C8 (amended). A value that as a whole is \<open>${VAR}\<close> resolves to the value of the variable
  \<open>VAR\<close>, and to the empty string with one warning when \<open>VAR\<close> is unset or empty; when the
  platform cannot encode the name \<open>VAR\<close>, the lookup raises \<^verbatim>\<open>UnicodeEncodeError\<close> instead.
  Any other string, also one that contains a placeholder among other text, and any value
  that is not a string, is returned unchanged without a warning. So resolution fails
  exactly for a value \<open>${VAR}\<close> whose name cannot be encoded. Of a provider's definition
  only the \<open>api_key\<close> is resolved, and a failure of its resolution is the failure of the
  load; the model, the base url, the temperature, the token limit, the timeout and the
  extra options are taken as they stand, whatever the environment is, and so is every
  field of an agent's definition.
\<close>

theorem placeholder_resolution:
  "resolve_env_vars env (YStr (cps ''${'' @ var @ cps ''}''))
     = (if env_encodes env var
        then Inr (YStr (case env_vars env var of None \<Rightarrow> [] | Some x \<Rightarrow> x),
                  if env_vars env var = None \<or> env_vars env var = Some []
                  then [cps ''Environment variable not set: '' @ var] else [])
        else Inl (UnicodeEncodeError var))
   \<and> (\<not> (startswith s (cps ''${'') \<and> endswith s (cps ''}'')) \<longrightarrow>
        resolve_env_vars env (YStr s) = Inr (YStr s, []))
   \<and> ((\<forall>x. v \<noteq> YStr x) \<longrightarrow> resolve_env_vars env v = Inr (v, []))
   \<and> ((\<exists>err. resolve_env_vars env v = Inl err)
        \<longleftrightarrow> (\<exists>name. v = YStr (cps ''${'' @ name @ cps ''}'') \<and> \<not> env_encodes env name))
   \<and> (\<forall>err. resolve_env_vars env (dict_get d (cps ''api_key'') (YStr [])) = Inl err
         \<longrightarrow> provider_config_of env d = Inl err)
   \<and> (\<forall>key warnings.
         resolve_env_vars env (dict_get d (cps ''api_key'') (YStr [])) = Inr (key, warnings)
         \<longrightarrow> (\<exists>pc. provider_config_of env d = Inr (pc, warnings)
                \<and> api_key pc = key
                \<and> model pc = dict_get d (cps ''model'') (YStr [])
                \<and> base_url pc = dict_get d (cps ''base_url'') YNull
                \<and> pc_temperature pc = dict_get d (cps ''temperature'') (YFloat 0.7)
                \<and> max_tokens pc = dict_get d (cps ''max_tokens'') (YInt 4096)
                \<and> timeout pc = dict_get d (cps ''timeout'') (YFloat 60)
                \<and> extra pc = dict_get d (cps ''extra'') (YDict [])))
   \<and> (\<forall>pc ws pc' ws'.
         provider_config_of env d = Inr (pc, ws) \<and> provider_config_of env' d = Inr (pc', ws')
         \<longrightarrow> pc'\<lparr>api_key := api_key pc\<rparr> = pc)
   \<and> lc_name (agent_config_of agent_name a) = agent_name
   \<and> lc_provider (agent_config_of agent_name a) = dict_get a (cps ''provider'') (YStr [])
   \<and> lc_model (agent_config_of agent_name a) = dict_get a (cps ''model'') (YStr [])
   \<and> lc_system_prompt (agent_config_of agent_name a)
       = dict_get a (cps ''system_prompt'') (YStr [])
   \<and> lc_subscriptions (agent_config_of agent_name a)
       = dict_get a (cps ''subscriptions'') (YList [YStr (cps ''task.created'')])
   \<and> lc_tools (agent_config_of agent_name a) = dict_get a (cps ''tools'') (YList [])
   \<and> lc_max_history (agent_config_of agent_name a) = dict_get a (cps ''max_history'') (YInt 50)
   \<and> lc_temperature (agent_config_of agent_name a) = dict_get a (cps ''temperature'') YNull
   \<and> lc_metadata (agent_config_of agent_name a) = dict_get a (cps ''metadata'') (YDict [])"
proof (intro conjI allI impI)
  show "resolve_env_vars env (YStr (cps ''${'' @ var @ cps ''}''))
     = (if env_encodes env var
        then Inr (YStr (case env_vars env var of None \<Rightarrow> [] | Some x \<Rightarrow> x),
                  if env_vars env var = None \<or> env_vars env var = Some []
                  then [cps ''Environment variable not set: '' @ var] else [])
        else Inl (UnicodeEncodeError var))"
    by (rule resolve_placeholder)
  show "resolve_env_vars env (YStr s) = Inr (YStr s, [])"
    if "\<not> (startswith s (cps ''${'') \<and> endswith s (cps ''}''))"
    using that by (rule resolve_other)
  show "resolve_env_vars env v = Inr (v, [])" if "\<forall>x. v \<noteq> YStr x"
    using that by (rule resolve_other)
  show "(\<exists>err. resolve_env_vars env v = Inl err)
        \<longleftrightarrow> (\<exists>name. v = YStr (cps ''${'' @ name @ cps ''}'') \<and> \<not> env_encodes env name)"
    by (rule resolve_fails_iff)
  show "provider_config_of env d = Inl err"
    if "resolve_env_vars env (dict_get d (cps ''api_key'') (YStr [])) = Inl err" for err
    using that by (simp add: provider_config_of_def)
  show "\<exists>pc. provider_config_of env d = Inr (pc, warnings)
                \<and> api_key pc = key
                \<and> model pc = dict_get d (cps ''model'') (YStr [])
                \<and> base_url pc = dict_get d (cps ''base_url'') YNull
                \<and> pc_temperature pc = dict_get d (cps ''temperature'') (YFloat 0.7)
                \<and> max_tokens pc = dict_get d (cps ''max_tokens'') (YInt 4096)
                \<and> timeout pc = dict_get d (cps ''timeout'') (YFloat 60)
                \<and> extra pc = dict_get d (cps ''extra'') (YDict [])"
    if "resolve_env_vars env (dict_get d (cps ''api_key'') (YStr [])) = Inr (key, warnings)"
    for key warnings
    using that by (simp add: provider_config_of_def)
  show "pc'\<lparr>api_key := api_key pc\<rparr> = pc"
    if "provider_config_of env d = Inr (pc, ws) \<and> provider_config_of env' d = Inr (pc', ws')"
    for pc ws pc' ws'
    using that by (auto simp: provider_config_of_def split: sum.splits)
qed (simp_all add: agent_config_of_def)

text \<open>
  A placeholder among other text is not resolved; a provider's model written as a
  placeholder is not resolved; and on POSIX the resolution of \<open>${VAR}\<close> fails when the
  name is a lone surrogate (the YAML scalar \<^verbatim>\<open>"${\ud800}"\<close>).
\<close>

theorem placeholder_resolution_counterexample:
  "resolve_env_vars (posix_environ [cps ''VAR'' \<mapsto> cps ''secret'']) (YStr (cps ''key-${VAR}''))
     = Inr (YStr (cps ''key-${VAR}''), [])
   \<and> (\<exists>pc. provider_config_of (posix_environ [cps ''MODEL'' \<mapsto> cps ''gpt-4o''])
              model_placeholder_provider = Inr (pc, [])
            \<and> model pc = YStr (cps ''${MODEL}''))
   \<and> resolve_env_vars (posix_environ Map.empty) (YStr (cps ''${'' @ [0xD800] @ cps ''}''))
     = Inl (UnicodeEncodeError [0xD800])
   \<and> provider_config_of (posix_environ Map.empty)
        [(cps ''api_key'', YStr (cps ''${'' @ [0xD800] @ cps ''}''))]
     = Inl (UnicodeEncodeError [0xD800])"
proof (intro conjI)
  show "resolve_env_vars (posix_environ [cps ''VAR'' \<mapsto> cps ''secret'']) (YStr (cps ''key-${VAR}''))
     = Inr (YStr (cps ''key-${VAR}''), [])"
    by (simp add: resolve_env_vars_def startswith_def cps_def)
  show "\<exists>pc. provider_config_of (posix_environ [cps ''MODEL'' \<mapsto> cps ''gpt-4o''])
              model_placeholder_provider = Inr (pc, [])
            \<and> model pc = YStr (cps ''${MODEL}'')"
    by (simp add: provider_config_of_def model_placeholder_provider_def dict_get_def
          resolve_env_vars_def startswith_def cps_def)
  have bad: "\<not> env_encodes (posix_environ Map.empty) [0xD800]"
    by (simp add: posix_environ_def utf8_surrogateescape_def)
  show fails: "resolve_env_vars (posix_environ Map.empty) (YStr (cps ''${'' @ [0xD800] @ cps ''}''))
     = Inl (UnicodeEncodeError [0xD800])"
    using bad by (simp only: resolve_placeholder if_False)
  have "dict_get [(cps ''api_key'', YStr (cps ''${'' @ [0xD800] @ cps ''}''))] (cps ''api_key'') (YStr [])
          = YStr (cps ''${'' @ [0xD800] @ cps ''}'')"
    by (simp add: dict_get_def)
  then show "provider_config_of (posix_environ Map.empty)
        [(cps ''api_key'', YStr (cps ''${'' @ [0xD800] @ cps ''}''))]
     = Inl (UnicodeEncodeError [0xD800])"
    using fails by (simp only: provider_config_of_def sum.case)
qed

text \<open>The cases of the repository's tests, on POSIX.\<close>

theorem placeholder_resolution_witness:
  "env_encodes (posix_environ [cps ''TEST_SWARMX_KEY'' \<mapsto> cps ''resolved-value''])
     (cps ''TEST_SWARMX_KEY'')
   \<and> resolve_env_vars (posix_environ [cps ''TEST_SWARMX_KEY'' \<mapsto> cps ''resolved-value''])
        (YStr (cps ''${TEST_SWARMX_KEY}''))
     = Inr (YStr (cps ''resolved-value''), [])
   \<and> resolve_env_vars (posix_environ Map.empty) (YStr (cps ''${DEFINITELY_NOT_SET_VAR}''))
     = Inr (YStr [], [cps ''Environment variable not set: DEFINITELY_NOT_SET_VAR''])
   \<and> \<not> (startswith (cps ''plain-string'') (cps ''${'') \<and> endswith (cps ''plain-string'') (cps ''}''))
   \<and> resolve_env_vars (posix_environ Map.empty) (YStr (cps ''plain-string''))
     = Inr (YStr (cps ''plain-string''), [])
   \<and> (\<forall>x. YInt 123 \<noteq> YStr x)
   \<and> resolve_env_vars (posix_environ Map.empty) (YInt 123) = Inr (YInt 123, [])
   \<and> (\<exists>pc. provider_config_of (posix_environ [cps ''TEST_SWARMX_KEY'' \<mapsto> cps ''resolved-value''])
              test_provider = Inr (pc, [])
            \<and> api_key pc = YStr (cps ''resolved-value'')
            \<and> model pc = YStr (cps ''test-model'')
            \<and> base_url pc = YNull
            \<and> max_tokens pc = YInt 4096)"
proof -
  let ?env = "posix_environ [cps ''TEST_SWARMX_KEY'' \<mapsto> cps ''resolved-value'']"
  note set = placeholder_resolution
               [of ?env "cps ''TEST_SWARMX_KEY''" "cps ''plain-string''" "YInt 123"
                   test_provider ?env "[]" "[]"]
  note unset = placeholder_resolution
                 [of "posix_environ Map.empty" "cps ''DEFINITELY_NOT_SET_VAR''"
                     "cps ''plain-string''" "YInt 123" "[]" ?env "[]" "[]"]
  have enc: "env_encodes ?env (cps ''TEST_SWARMX_KEY'')"
      "env_encodes (posix_environ Map.empty) (cps ''DEFINITELY_NOT_SET_VAR'')"
    by (simp_all add: posix_environ_def utf8_surrogateescape_def cps_def)
  have plain: "\<not> (startswith (cps ''plain-string'') (cps ''${'')
                  \<and> endswith (cps ''plain-string'') (cps ''}''))"
    by (simp add: startswith_def cps_def)
  have r1: "resolve_env_vars ?env (YStr (cps ''${TEST_SWARMX_KEY}''))
              = Inr (YStr (cps ''resolved-value''), [])"
    using set [THEN conjunct1] enc(1) by (simp add: cps_def posix_environ_def)
  have r2: "resolve_env_vars (posix_environ Map.empty) (YStr (cps ''${DEFINITELY_NOT_SET_VAR}''))
              = Inr (YStr [], [cps ''Environment variable not set: DEFINITELY_NOT_SET_VAR''])"
    using unset [THEN conjunct1] enc(2) by (simp add: cps_def posix_environ_def)
  have r3: "resolve_env_vars (posix_environ Map.empty) (YStr (cps ''plain-string''))
              = Inr (YStr (cps ''plain-string''), [])"
    using unset [THEN conjunct2, THEN conjunct1] plain by blast
  have r4: "resolve_env_vars (posix_environ Map.empty) (YInt 123) = Inr (YInt 123, [])"
    using unset [THEN conjunct2, THEN conjunct2, THEN conjunct1] by simp
  have key: "dict_get test_provider (cps ''api_key'') (YStr []) = YStr (cps ''${TEST_SWARMX_KEY}'')"
    by (simp add: test_provider_def dict_get_def cps_def)
  from set [THEN conjunct2, THEN conjunct2, THEN conjunct2, THEN conjunct2, THEN conjunct2,
            THEN conjunct1, rule_format, of "YStr (cps ''resolved-value'')" "[]"]
       r1 key
  have "\<exists>pc. provider_config_of ?env test_provider = Inr (pc, [])
            \<and> api_key pc = YStr (cps ''resolved-value'')
            \<and> model pc = YStr (cps ''test-model'')
            \<and> base_url pc = YNull
            \<and> max_tokens pc = YInt 4096"
    by (auto simp: test_provider_def dict_get_def cps_def)
  with enc(1) r1 r2 plain r3 r4 show ?thesis by simp
qed

end
